theory Spec2Isabelle
  imports Main "HOL-Library.Sublist"
begin

section \<open>Strings\<close>

text \<open>
  Python strings are modelled as \<^typ>\<open>string\<close>, one \<^typ>\<open>char\<close> per character, and the
  model covers ASCII text: \<open>lower\<close> acts on the letters A to Z only, and only the ten ASCII
  digits count as digits.
\<close>

definition lower_char :: "char \<Rightarrow> char" where
  "lower_char c =
     (case map_of (zip ''ABCDEFGHIJKLMNOPQRSTUVWXYZ'' ''abcdefghijklmnopqrstuvwxyz'') c of
        Some l \<Rightarrow> l
      | None \<Rightarrow> c)"

text \<open>\<open>s.lower()\<close>\<close>

definition lower :: "string \<Rightarrow> string" where
  "lower s = map lower_char s"

text \<open>\<open>needle in haystack\<close> on strings: a contiguous occurrence.\<close>

fun py_in :: "string \<Rightarrow> string \<Rightarrow> bool" where
  "py_in n [] = (n = [])"
| "py_in n (c # cs) = (prefix n (c # cs) \<or> py_in n cs)"

text \<open>\<open>s.strip(c)\<close> for a single character \<open>c\<close>.\<close>

definition py_strip :: "char \<Rightarrow> string \<Rightarrow> string" where
  "py_strip c s = rev (dropWhile (\<lambda>x. x = c) (rev (dropWhile (\<lambda>x. x = c) s)))"

text \<open>\<open>sep.join(xs)\<close>\<close>

fun py_join :: "string \<Rightarrow> string list \<Rightarrow> string" where
  "py_join sep [] = []"
| "py_join sep [x] = x"
| "py_join sep (x # y # ys) = x @ sep @ py_join sep (y # ys)"

text \<open>
  \<open>s.split(sep)\<close> for a non-empty separator: the occurrences of \<open>sep\<close> are found from the
  left and do not overlap. \<open>acc\<close> holds the current piece, reversed. (Python raises
  ValueError on an empty separator; every separator of this program is a non-empty
  literal, and the model returns the whole string as one piece there.)
\<close>

function py_split_acc :: "string \<Rightarrow> string \<Rightarrow> string \<Rightarrow> string list" where
  "py_split_acc sep acc [] = [rev acc]"
| "py_split_acc sep acc (c # cs) =
     (if sep \<noteq> [] \<and> prefix sep (c # cs)
      then rev acc # py_split_acc sep [] (drop (length sep) (c # cs))
      else py_split_acc sep (c # acc) cs)"
  by pat_completeness auto
termination
  by (relation "measure (\<lambda>(sep, acc, s). length s)") (auto simp: neq_Nil_conv)

definition py_split :: "string \<Rightarrow> string \<Rightarrow> string list" where
  "py_split sep s = py_split_acc sep [] s"

text \<open>\<open>str(n)\<close> for a non-negative integer, and zero padding to a width.\<close>

definition digit_char :: "nat \<Rightarrow> char" where
  "digit_char n = ''0123456789'' ! (n mod 10)"

fun str_nat :: "nat \<Rightarrow> string" where
  "str_nat n = (if n < 10 then [digit_char n] else str_nat (n div 10) @ [digit_char (n mod 10)])"

definition zfill :: "nat \<Rightarrow> string \<Rightarrow> string" where
  "zfill w s = replicate (w - length s) CHR ''0'' @ s"

text \<open>Truth value of an optional list argument: \<open>None\<close> and \<open>[]\<close> are both false.\<close>

fun truthy :: "'a list option \<Rightarrow> bool" where
  "truthy None = False"
| "truthy (Some xs) = (xs \<noteq> [])"

fun items :: "'a list option \<Rightarrow> 'a list" where
  "items None = []"
| "items (Some xs) = xs"

section \<open>Dates\<close>

text \<open>A \<open>datetime.date\<close>: a valid calendar date of the years 1 to 9999.\<close>

record date =
  year :: nat
  month :: nat
  day :: nat

definition is_leap :: "nat \<Rightarrow> bool" where
  "is_leap y = (y mod 4 = 0 \<and> (y mod 100 \<noteq> 0 \<or> y mod 400 = 0))"

definition days_in_month :: "nat \<Rightarrow> nat \<Rightarrow> nat" where
  "days_in_month y m =
     (if m = 2 then (if is_leap y then 29 else 28)
      else if m \<in> {4, 6, 9, 11} then 30 else 31)"

definition valid_date :: "date \<Rightarrow> bool" where
  "valid_date d =
     (1 \<le> year d \<and> year d \<le> 9999 \<and> 1 \<le> month d \<and> month d \<le> 12 \<and>
      1 \<le> day d \<and> day d \<le> days_in_month (year d) (month d))"

text \<open>\<open>a <= b\<close> on dates.\<close>

definition date_le :: "date \<Rightarrow> date \<Rightarrow> bool" where
  "date_le a b =
     (year a < year b \<or>
      (year a = year b \<and> (month a < month b \<or> (month a = month b \<and> day a \<le> day b))))"

text \<open>
  \<open>d.strftime("%Y%m%d")\<close> and \<open>d.strftime("%Y-%m-%d")\<close>, the year written with four digits
  (what the C library prints for the years from 1000 on).
\<close>

definition strftime_Ymd :: "date \<Rightarrow> string" where
  "strftime_Ymd d =
     zfill 4 (str_nat (year d)) @ zfill 2 (str_nat (month d)) @ zfill 2 (str_nat (day d))"

definition strftime_Y_m_d :: "date \<Rightarrow> string" where
  "strftime_Y_m_d d =
     zfill 4 (str_nat (year d)) @ ''-'' @ zfill 2 (str_nat (month d)) @ ''-'' @
     zfill 2 (str_nat (day d))"

subsection \<open>\<open>datetime.strptime(s, '%Y-%m-%d').date()\<close>\<close>

text \<open>
  The library matches the text against the pattern
  \<^verbatim>\<open>(\d\d\d\d)-(1[0-2]|0[1-9]|[1-9])-(3[0-1]|[1-2]\d|0[1-9]|[1-9]| [1-9])\<close>
  from its start, raises ValueError when the pattern does not match or text remains
  after the match, and raises ValueError when year, month and day are no calendar date.
  \<open>None\<close> is the ValueError.
\<close>

definition digit_of :: "char \<Rightarrow> nat option" where
  "digit_of c = map_of (zip ''0123456789'' [0, 1, 2, 3, 4, 5, 6, 7, 8, 9]) c"

text \<open>The month and the dash after it: \<open>1[0-2]|0[1-9]|[1-9]\<close>, then \<open>-\<close>.\<close>

definition parse_month :: "string \<Rightarrow> (nat \<times> string) option" where
  "parse_month s =
     (case s of
        a # b # c # r \<Rightarrow>
          (case (digit_of a, digit_of b) of
             (Some x, Some y) \<Rightarrow>
               if c = CHR ''-'' \<and> ((x = 1 \<and> y \<le> 2) \<or> (x = 0 \<and> 1 \<le> y))
               then Some (10 * x + y, r) else None
           | (Some x, None) \<Rightarrow>
               if b = CHR ''-'' \<and> 1 \<le> x then Some (x, c # r) else None
           | _ \<Rightarrow> None)
      | [a, b] \<Rightarrow>
          (case digit_of a of
             Some x \<Rightarrow> if b = CHR ''-'' \<and> 1 \<le> x then Some (x, []) else None
           | None \<Rightarrow> None)
      | _ \<Rightarrow> None)"

text \<open>
  The day, which ends the pattern: the first alternative of
  \<open>3[0-1]|[1-2]\d|0[1-9]|[1-9]| [1-9]\<close> that matches is taken, and nothing may follow it.
\<close>

definition parse_day :: "string \<Rightarrow> nat option" where
  "parse_day s =
     (case s of
        [a] \<Rightarrow> (case digit_of a of Some x \<Rightarrow> if 1 \<le> x then Some x else None | None \<Rightarrow> None)
      | [a, b] \<Rightarrow>
          (case (digit_of a, digit_of b) of
             (Some x, Some y) \<Rightarrow>
               if (x = 3 \<and> y \<le> 1) \<or> x = 1 \<or> x = 2 \<or> (x = 0 \<and> 1 \<le> y)
               then Some (10 * x + y) else None
           | (None, Some y) \<Rightarrow> if a = CHR '' '' \<and> 1 \<le> y then Some y else None
           | _ \<Rightarrow> None)
      | _ \<Rightarrow> None)"

definition strptime_Y_m_d :: "string \<Rightarrow> date option" where
  "strptime_Y_m_d s =
     (case s of
        y1 # y2 # y3 # y4 # c # r \<Rightarrow>
          (case (digit_of y1, digit_of y2, digit_of y3, digit_of y4) of
             (Some a, Some b, Some e, Some f) \<Rightarrow>
               if c = CHR ''-'' then
                 (case parse_month r of
                    Some (m, r') \<Rightarrow>
                      (case parse_day r' of
                         Some d \<Rightarrow>
                           (let dt = \<lparr>year = 1000 * a + 100 * b + 10 * e + f, month = m, day = d\<rparr>
                            in if valid_date dt then Some dt else None)
                       | None \<Rightarrow> None)
                  | None \<Rightarrow> None)
               else None
           | _ \<Rightarrow> None)
      | _ \<Rightarrow> None)"

text \<open>
  \<open>parse_arxiv_date(date_str)\<close>: the text before the first \<open>T\<close> is parsed as a date. An input
  that is not a string (\<open>None\<close>) raises AttributeError at \<open>.split\<close>, which the function
  catches like the ValueError of \<open>strptime\<close>: both give \<open>None\<close>.
\<close>

definition parse_arxiv_date :: "string option \<Rightarrow> date option" where
  "parse_arxiv_date date_str =
     (case date_str of
        None \<Rightarrow> None
      | Some s \<Rightarrow> strptime_Y_m_d (hd (py_split ''T'' s)))"

section \<open>Keyword matching\<close>

text \<open>One round of the loop of \<open>find_matching_keywords\<close>.\<close>

definition match_keyword :: "string \<Rightarrow> string \<Rightarrow> string list \<Rightarrow> string \<Rightarrow> string list" where
  \<open>match_keyword title_lower abstract_lower matching_keywords keyword =
     (let clean_keyword = lower (py_strip (CHR ''"'') keyword)
      in if py_in clean_keyword title_lower \<or> py_in clean_keyword abstract_lower then
           (let found_in = (if py_in clean_keyword title_lower then [''title''] else []) @
                           (if py_in clean_keyword abstract_lower then [''abstract''] else [])
            in matching_keywords @ [keyword @ '' ('' @ py_join '', '' found_in @ '')''])
         else matching_keywords)\<close>

definition find_matching_keywords :: "string \<Rightarrow> string \<Rightarrow> string list \<Rightarrow> string list" where
  "find_matching_keywords title abstract keywords =
     foldl (match_keyword (lower title) (lower abstract)) [] keywords"

section \<open>Query construction\<close>

text \<open>The list \<open>query_parts\<close> of \<open>build_arxiv_query\<close>, before it is joined.\<close>

definition query_parts ::
  "string list option \<Rightarrow> string list option \<Rightarrow> string list option \<Rightarrow>
   date option \<Rightarrow> date option \<Rightarrow> string list" where
  "query_parts categories keywords authors start_date end_date =
     (if truthy categories
      then [''('' @ py_join '' OR '' (map (\<lambda>cat. ''cat:'' @ cat) (items categories)) @ '')'']
      else []) @
     (if truthy keywords
      then [''('' @ py_join '' OR ''
                (map (\<lambda>kw. ''(ti:'' @ kw @ '' OR abs:'' @ kw @ '')'') (items keywords)) @ '')'']
      else []) @
     (if truthy authors
      then [''('' @ py_join '' OR '' (map (\<lambda>auth. ''au:'' @ auth) (items authors)) @ '')'']
      else []) @
     (case (start_date, end_date) of
        (Some s, Some e) \<Rightarrow>
          [''submittedDate:['' @ strftime_Ymd s @ ''0000'' @ ''+TO+'' @
           strftime_Ymd e @ ''2359'' @ '']'']
      | _ \<Rightarrow> [])"

definition build_arxiv_query ::
  "string list option \<Rightarrow> string list option \<Rightarrow> string list option \<Rightarrow>
   date option \<Rightarrow> date option \<Rightarrow> string" where
  "build_arxiv_query categories keywords authors start_date end_date =
     (let parts = query_parts categories keywords authors start_date end_date
      in if parts \<noteq> [] then py_join ''+AND+'' parts else ''*'')"

section \<open>Entries and the date check\<close>

text \<open>
  One entry of the parsed feed. A date field is \<open>None\<close> when the entry has no such
  attribute; \<open>links\<close> holds the type (if any) and the href of each link;
  \<open>author_names\<close> holds the name of each of \<open>entry.authors\<close> and is \<open>None\<close> when the entry
  carries no author list.
\<close>

record entry =
  entry_id :: string
  title :: string
  summary :: string
  tags :: "string list"
  arxiv_updated :: "string option"
  updated :: "string option"
  published :: "string option"
  arxiv_created :: "string option"
  links :: "(string option \<times> string) list"
  author_names :: "string list option"

text \<open>\<open>hasattr(entry, f) and entry.f\<close>: the field is there and not the empty string.\<close>

fun present :: "string option \<Rightarrow> bool" where
  "present None = False"
| "present (Some s) = (s \<noteq> [])"

definition in_range :: "date \<Rightarrow> date \<Rightarrow> date \<Rightarrow> bool" where
  "in_range start_date d end_date = (date_le start_date d \<and> date_le d end_date)"

text \<open>
  \<open>is_date_in_range\<close>, its return value (the lines it writes to the log do not change it).
  No step of the body raises on an entry of this type, so the handler that returns True on
  an exception is never entered.
\<close>

definition is_date_in_range :: "entry \<Rightarrow> date \<Rightarrow> date \<Rightarrow> bool" where
  "is_date_in_range entry start_date end_date =
     (case (if present (arxiv_updated entry) then parse_arxiv_date (arxiv_updated entry)
            else None) of
        Some updated_date \<Rightarrow> in_range start_date updated_date end_date
      | None \<Rightarrow>
     (case (if present (updated entry) then parse_arxiv_date (updated entry) else None) of
        Some updated_date \<Rightarrow> in_range start_date updated_date end_date
      | None \<Rightarrow>
     (case (if present (published entry) then parse_arxiv_date (published entry) else None) of
        Some published_date \<Rightarrow> in_range start_date published_date end_date
      | None \<Rightarrow>
     (case (if present (arxiv_created entry) then parse_arxiv_date (arxiv_created entry)
            else None) of
        Some created_date \<Rightarrow> in_range start_date created_date end_date
      | None \<Rightarrow> True))))"

section \<open>Identifiers and the dedup store\<close>

text \<open>\<open>entry.id.split('/abs/')[-1]\<close>\<close>

definition arxiv_id_of :: "entry \<Rightarrow> string" where
  "arxiv_id_of entry = last (py_split ''/abs/'' (entry_id entry))"

text \<open>\<open>arxiv_id.split('v')[0] if 'v' in arxiv_id else arxiv_id\<close>\<close>

definition base_arxiv_id :: "string \<Rightarrow> string" where
  "base_arxiv_id arxiv_id =
     (if CHR ''v'' \<in> set arxiv_id then hd (py_split ''v'' arxiv_id) else arxiv_id)"

text \<open>
  \<open>clean_old_processed_papers\<close>. The order in which Python lists the elements of a set is
  fixed by the runtime, not by the program: \<open>list_of\<close> stands for \<open>list(processed_papers)\<close>,
  and \<open>xs[-500:]\<close> is the last 500 elements (all of them when there are fewer).
\<close>

definition clean_old_processed_papers ::
  "(string set \<Rightarrow> string list) \<Rightarrow> string set \<Rightarrow> string set" where
  "clean_old_processed_papers list_of processed_papers =
     (if card processed_papers > 1000
      then (let l = list_of processed_papers in set (drop (length l - 500) l))
      else processed_papers)"

section \<open>Fetching\<close>

text \<open>
  The remote search service with the feed parser on top: for a search query, an offset and
  a page size, either the entries of the parsed response, or \<open>None\<close> when the request
  raises (a malformed response parses to a feed without entries).
\<close>

type_synonym api = "string \<Rightarrow> nat \<Rightarrow> nat \<Rightarrow> entry list option"

definition fetch_arxiv_batch ::
  "api \<Rightarrow> string list option \<Rightarrow> string list option \<Rightarrow> string list option \<Rightarrow>
   date option \<Rightarrow> date option \<Rightarrow> nat \<Rightarrow> nat \<Rightarrow> entry list option" where
  "fetch_arxiv_batch api categories keywords_batch authors start_date end_date max_results start =
     api (build_arxiv_query categories keywords_batch authors start_date end_date)
       start max_results"

text \<open>
  The state of the fetch loops: the entries collected so far, the identifiers seen so far,
  and the offsets of the requests issued so far (one for each call of
  \<open>fetch_arxiv_batch\<close>).
\<close>

record fetch_state =
  all_entries :: "entry list"
  all_entry_ids :: "string set"
  requests :: "nat list"

definition max_results_per_call :: nat where
  "max_results_per_call = 200"

text \<open>The body of \<open>for entry in feed.entries\<close>.\<close>

definition add_entry :: "fetch_state \<Rightarrow> entry \<Rightarrow> fetch_state" where
  "add_entry st entry =
     (let eid = arxiv_id_of entry
      in if eid \<notin> all_entry_ids st
         then st\<lparr>all_entry_ids := insert eid (all_entry_ids st),
                 all_entries := all_entries st @ [entry]\<rparr>
         else st)"

text \<open>
  \<open>while start < max_total_results\<close>, for one keyword batch. The result is the final
  \<open>page_num\<close> with the final state. The values that the loop only writes to the log
  (\<open>total_fetched\<close>, \<open>page_entries\<close>, the dates of a page) are left out.
\<close>

function fetch_pages ::
  "api \<Rightarrow> string list option \<Rightarrow> string list option \<Rightarrow> string list option \<Rightarrow>
   date \<Rightarrow> date \<Rightarrow> nat \<Rightarrow> nat \<Rightarrow> nat \<Rightarrow> fetch_state \<Rightarrow> nat \<times> fetch_state" where
  "fetch_pages api categories keyword_batch authors api_start_window yesterday
     max_total_results start page_num st =
     (if start < max_total_results then
        (let page_num' = page_num + 1;
             st' = st\<lparr>requests := requests st @ [start]\<rparr>
         in case fetch_arxiv_batch api categories keyword_batch authors
                   (Some api_start_window) (Some yesterday) max_results_per_call start of
              None \<Rightarrow> (page_num', st')
            | Some entries \<Rightarrow>
                if length entries = 0 then (page_num', st')
                else if length entries < max_results_per_call
                then (page_num', foldl add_entry st' entries)
                else fetch_pages api categories keyword_batch authors api_start_window
                       yesterday max_total_results (start + max_results_per_call) page_num'
                       (foldl add_entry st' entries))
      else (page_num, st))"
  by pat_completeness auto
termination
  by (relation "measure (\<lambda>(api, c, k, a, s, y, max_total_results, start, p, st).
        max_total_results - start)")
     (auto simp: max_results_per_call_def)

text \<open>\<open>[keywords[i:i + n] for i in range(0, len(keywords), n)]\<close>\<close>

function chunks :: "nat \<Rightarrow> 'a list \<Rightarrow> 'a list list" where
  "chunks n xs = (if n = 0 \<or> xs = [] then [] else take n xs # chunks n (drop n xs))"
  by pat_completeness auto
termination
  by (relation "measure (\<lambda>(n, xs). length xs)") auto

definition keyword_batches :: "string list option \<Rightarrow> string list option list" where
  "keyword_batches keywords =
     (if truthy keywords \<and> length (items keywords) > 15
      then map Some (chunks 15 (items keywords))
      else if truthy keywords then [keywords]
      else [None])"

text \<open>The loop over the keyword batches.\<close>

definition fetch_all ::
  "api \<Rightarrow> string list option \<Rightarrow> string list option \<Rightarrow> string list option \<Rightarrow>
   date \<Rightarrow> date \<Rightarrow> nat \<Rightarrow> fetch_state" where
  "fetch_all api categories keywords authors api_start_window yesterday max_total_results =
     foldl (\<lambda>st keyword_batch.
              snd (fetch_pages api categories keyword_batch authors api_start_window yesterday
                     max_total_results 0 0 st))
       \<lparr>all_entries = [], all_entry_ids = {}, requests = []\<rparr>
       (keyword_batches keywords)"

section \<open>Filtering and rendering\<close>

text \<open>The lines the main loop writes to the log, each with the identifier of its paper.\<close>

datatype log_event =
    DateOutsideIncluded string "string list"
  | NoDateInfoIncluded string
  | FilteredRequiredCategories string
  | FilteredExcludedCategories string "string list"
  | FilteredNoKeywords string

text \<open>The counters and accumulators of the main loop of \<open>arxiv_alert\<close>.\<close>

record digest_state =
  body :: string
  new_papers_count :: nat
  filtered_papers_count :: nat
  no_keywords_count :: nat
  already_processed_count :: nat
  shown_papers_count :: nat
  new_processed_papers :: "string set"
  log_lines :: "log_event list"

text \<open>The list \<open>entry_date_info\<close>, which is only logged.\<close>

definition entry_date_info :: "entry \<Rightarrow> string list" where
  "entry_date_info entry =
     (case (if present (arxiv_updated entry) then parse_arxiv_date (arxiv_updated entry)
            else None) of
        Some date_val \<Rightarrow> [''arxiv_updated='' @ strftime_Y_m_d date_val] | None \<Rightarrow> []) @
     (case (if present (updated entry) then parse_arxiv_date (updated entry) else None) of
        Some date_val \<Rightarrow> [''updated='' @ strftime_Y_m_d date_val] | None \<Rightarrow> []) @
     (case (if present (published entry) then parse_arxiv_date (published entry) else None) of
        Some date_val \<Rightarrow> [''published='' @ strftime_Y_m_d date_val] | None \<Rightarrow> [])"

text \<open>The link of the heading: the first link of type \<open>application/pdf\<close>, else the entry's id.\<close>

definition pdf_link_of :: "entry \<Rightarrow> string" where
  "pdf_link_of entry =
     (case find (\<lambda>link. fst link = Some ''application/pdf'') (links entry) of
        Some link \<Rightarrow> snd link
      | None \<Rightarrow> entry_id entry)"

definition new_badge :: "bool \<Rightarrow> string" where
  \<open>new_badge is_already_processed =
     (if is_already_processed
      then '' <span style="color: #999; font-size: 0.8em;">(seen before)</span>''
      else '' <span style="color: #45ABC2; font-size: 0.8em; font-weight: bold;">[NEW]</span>'')\<close>

text \<open>The heading of an entry's block: the linked title with its badge.\<close>

definition entry_heading :: "entry \<Rightarrow> bool \<Rightarrow> string" where
  \<open>entry_heading entry is_already_processed =
     ''<a href="'' @ pdf_link_of entry @ ''" target="_blank"><h2>'' @ title entry @
       new_badge is_already_processed @ ''</h2></a>''\<close>

text \<open>
  The HTML that one accepted entry adds to \<open>body\<close>. \<open>get_paper_comments\<close> is the text that
  the lookup of the abstract page gives for an identifier (with its fallbacks).
\<close>

definition entry_block ::
  "(string \<Rightarrow> string) \<Rightarrow> string list option \<Rightarrow> entry \<Rightarrow> bool \<Rightarrow> string list \<Rightarrow> string" where
  \<open>entry_block get_paper_comments keywords entry is_already_processed matching_keywords =
     entry_heading entry is_already_processed @
     (case author_names entry of
        Some names \<Rightarrow> ''<strong><u>Authors:</u></strong> '' @ py_join '', '' names @ ''<br>''
      | None \<Rightarrow> []) @
     ''<strong><u>Categories:</u></strong> '' @ py_join '', '' (tags entry) @ ''<br>'' @
     ''<strong><u>Comments:</u></strong> '' @ get_paper_comments (arxiv_id_of entry) @ ''<br>'' @
     (case parse_arxiv_date (published entry) of
        Some pub_date \<Rightarrow>
          ''<strong><u>Published:</u></strong> '' @ strftime_Y_m_d pub_date @ ''<br>''
      | None \<Rightarrow> []) @
     (if keywords = None
      then ''<strong><u>Matching Keywords:</u></strong> Not evaluated (no keywords configured)<br>''
      else if matching_keywords \<noteq> []
      then ''<strong><u>Matching Keywords:</u></strong> '' @ py_join '', '' matching_keywords @
           ''<br>''
      else ''<strong><u>Matching Keywords:</u></strong> None<br>'') @
     ''<p><strong><u>Abstract:</u></strong> '' @ summary entry @ ''</p>'' @
     ''<br><hr><br>''\<close>

text \<open>The two category tests, on lower-cased names.\<close>

definition has_required_category :: "string list \<Rightarrow> entry \<Rightarrow> bool" where
  "has_required_category categories entry =
     list_ex (\<lambda>cat_lower. cat_lower \<in> set (map lower categories)) (map lower (tags entry))"

definition has_excluded_category :: "string list \<Rightarrow> entry \<Rightarrow> bool" where
  "has_excluded_category excluded_categories entry =
     list_ex (\<lambda>cat_lower. cat_lower \<in> set (map lower excluded_categories))
       (map lower (tags entry))"

definition excluded_found :: "string list \<Rightarrow> entry \<Rightarrow> string list" where
  "excluded_found excluded_categories entry =
     filter (\<lambda>cat. lower cat \<in> set (map lower excluded_categories)) (tags entry)"

text \<open>The keyword check: \<open>matching_keywords\<close>, empty when no keywords are configured.\<close>

definition matching_keywords_of :: "string list option \<Rightarrow> entry \<Rightarrow> string list" where
  "matching_keywords_of keywords entry =
     (case keywords of
        None \<Rightarrow> []
      | Some ks \<Rightarrow> find_matching_keywords (title entry) (summary entry) ks)"

text \<open>The body of \<open>for entry in all_entries\<close>.\<close>

definition process_entry ::
  "(string \<Rightarrow> string) \<Rightarrow> string set \<Rightarrow> date \<Rightarrow> date \<Rightarrow> string list option \<Rightarrow>
   string list option \<Rightarrow> string list option \<Rightarrow> digest_state \<Rightarrow> entry \<Rightarrow> digest_state" where
  "process_entry get_paper_comments processed_papers start_window yesterday categories
     excluded_categories keywords st entry =
     (let arxiv_id = arxiv_id_of entry;
          base = base_arxiv_id arxiv_id;
          is_already_processed = (base \<in> processed_papers);
          st1 = (if is_already_processed
                 then st\<lparr>already_processed_count := already_processed_count st + 1\<rparr>
                 else st);
          date_check = is_date_in_range entry start_window yesterday;
          st2 = (if \<not> date_check \<and> entry_date_info entry \<noteq> []
                 then st1\<lparr>log_lines := log_lines st1 @
                          [DateOutsideIncluded arxiv_id (entry_date_info entry)]\<rparr>
                 else if \<not> date_check
                 then st1\<lparr>log_lines := log_lines st1 @ [NoDateInfoIncluded arxiv_id]\<rparr>
                 else st1)
      in if truthy categories \<and> \<not> has_required_category (items categories) entry then
           st2\<lparr>filtered_papers_count := filtered_papers_count st2 + 1,
               log_lines := log_lines st2 @ [FilteredRequiredCategories arxiv_id]\<rparr>
         else if truthy excluded_categories \<and>
                 has_excluded_category (items excluded_categories) entry then
           st2\<lparr>filtered_papers_count := filtered_papers_count st2 + 1,
               log_lines := log_lines st2 @
                 [FilteredExcludedCategories arxiv_id
                    (excluded_found (items excluded_categories) entry)]\<rparr>
         else
           (let matching_keywords = matching_keywords_of keywords entry
            in if keywords \<noteq> None \<and> matching_keywords = [] then
                 st2\<lparr>no_keywords_count := no_keywords_count st2 + 1,
                     log_lines := log_lines st2 @ [FilteredNoKeywords arxiv_id]\<rparr>
               else
                 (let st3 = (if \<not> is_already_processed
                             then st2\<lparr>new_processed_papers :=
                                        insert base (new_processed_papers st2),
                                      new_papers_count := new_papers_count st2 + 1\<rparr>
                             else st2)
                  in st3\<lparr>shown_papers_count := shown_papers_count st3 + 1,
                         body := body st3 @
                           entry_block get_paper_comments keywords entry is_already_processed
                             matching_keywords\<rparr>)))"

definition process_entries ::
  "(string \<Rightarrow> string) \<Rightarrow> string set \<Rightarrow> date \<Rightarrow> date \<Rightarrow> string list option \<Rightarrow>
   string list option \<Rightarrow> string list option \<Rightarrow> string \<Rightarrow> entry list \<Rightarrow> digest_state" where
  "process_entries get_paper_comments processed_papers start_window yesterday categories
     excluded_categories keywords head entries =
     foldl (process_entry get_paper_comments processed_papers start_window yesterday categories
              excluded_categories keywords)
       \<lparr>body = head, new_papers_count = 0, filtered_papers_count = 0, no_keywords_count = 0,
        already_processed_count = 0, shown_papers_count = 0, new_processed_papers = {},
        log_lines = []\<rparr>
       entries"

text \<open>What follows the loop: the closing lines of the document.\<close>

definition closing :: "nat \<Rightarrow> digest_state \<Rightarrow> string" where
  "closing total_papers_count st =
     (if shown_papers_count st = 0 then
        ''<p><em>No papers found for this period.</em></p>'' @
        ''<p>Statistics: Found '' @ str_nat total_papers_count @ '' total papers, '' @
        str_nat (already_processed_count st) @ '' already processed, '' @
        str_nat (no_keywords_count st) @ '' filtered by keywords, '' @
        str_nat (filtered_papers_count st) @ '' filtered by excluded categories.</p>''
      else
        ''<hr><p><em>Summary: Showing '' @ str_nat (shown_papers_count st) @ '' papers ('' @
        str_nat (new_papers_count st) @ '' new, '' @
        str_nat (shown_papers_count st - new_papers_count st) @ '' seen before)</em></p>'') @
     ''</body></html>''"

section \<open>The run\<close>

text \<open>\<open>d - timedelta(days=n)\<close>, one day at a time.\<close>

definition prev_day :: "date \<Rightarrow> date" where
  "prev_day d =
     (if 1 < day d then d\<lparr>day := day d - 1\<rparr>
      else if 1 < month d
      then \<lparr>year = year d, month = month d - 1, day = days_in_month (year d) (month d - 1)\<rparr>
      else \<lparr>year = year d - 1, month = 12, day = 31\<rparr>)"

fun minus_days :: "date \<Rightarrow> nat \<Rightarrow> date" where
  "minus_days d 0 = d"
| "minus_days d (Suc n) = minus_days (prev_day d) n"

text \<open>
  What a run takes from outside the program: the search service, the lookup of a paper's
  comments, the order in which the runtime lists a set, the clock, and the fixed opening
  part of the two documents (markup, style sheet and the line with the two dates).
\<close>

record env =
  api_of :: api
  get_paper_comments :: "string \<Rightarrow> string"
  list_of :: "string set \<Rightarrow> string list"
  today :: date
  digest_head :: "date \<Rightarrow> date \<Rightarrow> string"
  empty_head :: "date \<Rightarrow> date \<Rightarrow> string"

text \<open>
  The outcome of a run: the document, the content of the store file after the run, and the
  final counters (\<open>None\<close> when nothing was fetched and the main loop never ran). The
  path of the document and the writing of the file are outside the model.
\<close>

record run_result =
  html :: string
  stored :: "string set"
  digest :: "digest_state option"

text \<open>
  \<open>arxiv_alert\<close>, given the store that \<open>load_processed_papers\<close> returns. When no entry was
  fetched the function returns before the store is written.
\<close>

text \<open>The local values that \<open>arxiv_alert\<close> computes before it fetches.\<close>

definition amount_of :: "int \<Rightarrow> int" where
  "amount_of amount_of_days = (if amount_of_days < 1 then 1 else amount_of_days)"

definition yesterday_of :: "env \<Rightarrow> date" where
  "yesterday_of e = minus_days (today e) 1"

definition start_window_of :: "env \<Rightarrow> int \<Rightarrow> date" where
  "start_window_of e amount_of_days =
     minus_days (yesterday_of e) (nat (amount_of amount_of_days - 1))"

definition api_start_window_of :: "env \<Rightarrow> int \<Rightarrow> date" where
  "api_start_window_of e amount_of_days = minus_days (start_window_of e amount_of_days) 1"

definition max_total_results_of :: "int \<Rightarrow> nat" where
  "max_total_results_of amount_of_days = nat (min 2000 (200 * amount_of amount_of_days))"

text \<open>The list \<open>all_entries\<close> after the fetch loops.\<close>

definition fetched_entries ::
  "env \<Rightarrow> int \<Rightarrow> string list option \<Rightarrow> string list option \<Rightarrow> string list option \<Rightarrow>
   entry list" where
  "fetched_entries e amount_of_days categories keywords authors =
     all_entries
       (fetch_all (api_of e) categories keywords authors
          (api_start_window_of e amount_of_days) (yesterday_of e)
          (max_total_results_of amount_of_days))"

text \<open>The state \<open>st\<close> after the main loop over the fetched entries.\<close>

definition main_loop ::
  "env \<Rightarrow> string set \<Rightarrow> int \<Rightarrow> string list option \<Rightarrow> string list option \<Rightarrow>
   string list option \<Rightarrow> entry list \<Rightarrow> digest_state" where
  "main_loop e processed_papers amount_of_days categories excluded_categories keywords entries =
     process_entries (get_paper_comments e) processed_papers
       (start_window_of e amount_of_days) (yesterday_of e) categories excluded_categories
       keywords (digest_head e (start_window_of e amount_of_days) (yesterday_of e)) entries"

definition arxiv_alert ::
  "env \<Rightarrow> string set \<Rightarrow> int \<Rightarrow> string list option \<Rightarrow> string list option \<Rightarrow>
   string list option \<Rightarrow> string list option \<Rightarrow> run_result" where
  "arxiv_alert e processed_papers amount_of_days categories keywords authors
     excluded_categories =
     (let entries = fetched_entries e amount_of_days categories keywords authors
      in if length entries = 0 then
           \<lparr>html = empty_head e (start_window_of e amount_of_days) (yesterday_of e) @
                   ''<p><strong>No papers found</strong> for this period.</p>'' @
                   ''<p>Tried '' @ str_nat (length (keyword_batches keywords)) @
                   '' batch(es) of queries.</p>'' @ ''</body></html>'',
            stored = processed_papers,
            digest = None\<rparr>
         else
           (let st = main_loop e processed_papers amount_of_days categories
                       excluded_categories keywords entries
            in \<lparr>html = body st @ closing (length entries) st,
                stored = clean_old_processed_papers (list_of e)
                           (processed_papers \<union> new_processed_papers st),
                digest = Some st\<rparr>))"

section \<open>Reference notions for the properties\<close>

text \<open>
  The texts that \<open>%Y-%m-%d\<close> accepts for a date: a four-digit year, the month with or
  without a leading zero, the day with or without a leading zero or with a leading blank.
\<close>

definition month_texts :: "nat \<Rightarrow> string list" where
  "month_texts m = zfill 2 (str_nat m) # (if m < 10 then [str_nat m] else [])"

definition day_texts :: "nat \<Rightarrow> string list" where
  "day_texts d =
     zfill 2 (str_nat d) # (if d < 10 then [str_nat d, CHR '' '' # str_nat d] else [])"

definition date_texts :: "date \<Rightarrow> string list" where
  "date_texts dt =
     concat (map (\<lambda>m. map (\<lambda>d. zfill 4 (str_nat (year dt)) @ ''-'' @ m @ ''-'' @ d)
                           (day_texts (day dt)))
                 (month_texts (month dt)))"

text \<open>
  A well-formed timestamp and the date it names: four digits, a dash, two digits, a dash,
  two digits (a calendar date), the separator \<open>T\<close>, and a time part that ends with the
  zone marker \<open>Z\<close> (the time part is not constrained further). \<open>None\<close> for any other
  string.
\<close>

definition timestamp_date :: "string \<Rightarrow> date option" where
  "timestamp_date s =
     (case s of
        y1 # y2 # y3 # y4 # c1 # m1 # m2 # c2 # d1 # d2 # t # time \<Rightarrow>
          (case (digit_of y1, digit_of y2, digit_of y3, digit_of y4) of
             (Some a, Some b, Some c, Some d) \<Rightarrow>
               (case (digit_of m1, digit_of m2, digit_of d1, digit_of d2) of
                  (Some e, Some f, Some g, Some h) \<Rightarrow>
                    (let dt = \<lparr>year = 1000 * a + 100 * b + 10 * c + d, month = 10 * e + f,
                               day = 10 * g + h\<rparr>
                     in if c1 = CHR ''-'' \<and> c2 = CHR ''-'' \<and> t = CHR ''T'' \<and> time \<noteq> [] \<and>
                           last time = CHR ''Z'' \<and> valid_date dt
                        then Some dt else None)
                | _ \<Rightarrow> None)
           | _ \<Rightarrow> None)
      | _ \<Rightarrow> None)"

text \<open>A page that lets the pagination go on: the request succeeded and filled the page.\<close>

definition full_page :: "entry list option \<Rightarrow> bool" where
  "full_page r =
     (case r of None \<Rightarrow> False | Some entries \<Rightarrow> max_results_per_call \<le> length entries)"

text \<open>What is known of the runtime's order of a set: every element once.\<close>

definition enumerates :: "(string set \<Rightarrow> string list) \<Rightarrow> string set \<Rightarrow> bool" where
  "enumerates lst S = (distinct (lst S) \<and> set (lst S) = S)"

text \<open>
  The filter chain as the specification words it: the required-category check, then the
  excluded-category check, then the keyword check, and the first check that fails decides.
\<close>

datatype verdict = RejectedRequired | RejectedExcluded | RejectedKeywords | Accepted

definition filter_verdict ::
  "string list option \<Rightarrow> string list option \<Rightarrow> string list option \<Rightarrow> entry \<Rightarrow> verdict" where
  "filter_verdict categories excluded_categories keywords entry =
     (if truthy categories \<and> \<not> has_required_category (items categories) entry
      then RejectedRequired
      else if truthy excluded_categories \<and>
              has_excluded_category (items excluded_categories) entry
      then RejectedExcluded
      else if keywords \<noteq> None \<and> matching_keywords_of keywords entry = []
      then RejectedKeywords
      else Accepted)"



text \<open>The base identifier of an entry.\<close>

definition base_of :: "entry \<Rightarrow> string" where
  "base_of entry = base_arxiv_id (arxiv_id_of entry)"

subsection \<open>Sample inputs\<close>

definition paper :: "string \<Rightarrow> string list \<Rightarrow> string \<Rightarrow> entry" where
  "paper ident cats date_str =
     \<lparr>entry_id = ''http://arxiv.org/abs/'' @ ident, title = ''Dust in galaxies'',
      summary = ''We observe dust with ALMA.'', tags = cats,
      arxiv_updated = None, updated = Some date_str, published = Some date_str,
      arxiv_created = None, links = [], author_names = Some [''A. Author'']\<rparr>"

definition sample_env :: "api \<Rightarrow> (string set \<Rightarrow> string list) \<Rightarrow> env" where
  "sample_env service lst =
     \<lparr>api_of = service, get_paper_comments = (\<lambda>arxiv_id. ''No comments''), list_of = lst,
      today = \<lparr>year = 2024, month = 11, day = 21\<rparr>,
      digest_head = (\<lambda>start_window yesterday. ''<body>''),
      empty_head = (\<lambda>start_window yesterday. ''<body>'')\<rparr>"

text \<open>A service with one page of results, and a store of a thousand older identifiers.\<close>

definition one_page :: "entry list \<Rightarrow> api" where
  "one_page entries = (\<lambda>search_query start max_results. if start = 0 then Some entries else Some [])"

definition old_ids :: "string list" where
  "old_ids = map (\<lambda>n. ''2410.0'' @ str_nat n) [1000..<2000]"

text \<open>The state in which the main loop starts, with an empty document.\<close>

definition st0 :: digest_state where
  "st0 = \<lparr>body = [], new_papers_count = 0, filtered_papers_count = 0, no_keywords_count = 0,
          already_processed_count = 0, shown_papers_count = 0, new_processed_papers = {},
          log_lines = []\<rparr>"

section \<open>Strings and dates: lemmas\<close>

declare str_nat.simps [simp del]

lemma lt10_cases: "k < 10 \<Longrightarrow> k \<in> {0, 1, 2, 3, 4, 5, 6, 7, 8, 9::nat}"
  by auto

lemma digit_of_digit_char: "k < 10 \<Longrightarrow> digit_of (digit_char k) = Some k"
  by (drule lt10_cases) (auto simp: digit_of_def digit_char_def)

lemma digit_of_Some: "digit_of c = Some k \<Longrightarrow> k < 10 \<and> c = digit_char k"
  by (auto simp: digit_of_def digit_char_def split: if_splits)

lemma digit_char_in: "digit_char k \<in> set ''0123456789''"
  unfolding digit_char_def by (rule nth_mem) simp

lemma digit_char_neq [simp]:
  "digit_char k \<noteq> CHR ''T''" "digit_char k \<noteq> CHR ''-''" "digit_char k \<noteq> CHR '' ''"
  "CHR ''T'' \<noteq> digit_char k" "CHR ''-'' \<noteq> digit_char k" "CHR '' '' \<noteq> digit_char k"
  using digit_char_in [of k] by auto

lemma digit_of_other [simp]: "digit_of CHR ''-'' = None" "digit_of CHR '' '' = None"
  by (simp_all add: digit_of_def)

lemma str_nat_1: "n < 10 \<Longrightarrow> str_nat n = [digit_char n]"
  by (simp add: str_nat.simps)

lemma str_nat_2: "10 \<le> n \<Longrightarrow> n < 100 \<Longrightarrow> str_nat n = [digit_char (n div 10), digit_char (n mod 10)]"
  by (subst str_nat.simps) (simp add: str_nat_1)

lemma str_nat_3: "100 \<le> n \<Longrightarrow> n < 1000 \<Longrightarrow>
  str_nat n = [digit_char (n div 100), digit_char (n div 10 mod 10), digit_char (n mod 10)]"
  by (subst str_nat.simps) (simp add: str_nat_2 div_mult2_eq [symmetric] del: str_nat.simps)

lemma str_nat_4: "1000 \<le> n \<Longrightarrow> n < 10000 \<Longrightarrow>
  str_nat n = [digit_char (n div 1000), digit_char (n div 100 mod 10), digit_char (n div 10 mod 10), digit_char (n mod 10)]"
  by (subst str_nat.simps) (simp add: str_nat_3 div_mult2_eq [symmetric])

lemma digit_char_0: "digit_char 0 = CHR ''0''"
  by (simp add: digit_char_def)

lemma zfill2: "n < 100 \<Longrightarrow> zfill 2 (str_nat n) = [digit_char (n div 10), digit_char (n mod 10)]"
  by (cases "n < 10") (simp_all add: zfill_def str_nat_1 str_nat_2 digit_char_0)

lemma replicate_123:
  "replicate 1 c = [c]" "replicate 2 c = [c, c]" "replicate 3 c = [c, c, c]"
  by (simp_all add: numeral_2_eq_2 numeral_3_eq_3)

lemma zfill4: "n < 10000 \<Longrightarrow>
  zfill 4 (str_nat n) = [digit_char (n div 1000), digit_char (n div 100 mod 10), digit_char (n div 10 mod 10), digit_char (n mod 10)]"
proof -
  assume n: "n < 10000"
  consider "n < 10" | "10 \<le> n" "n < 100" | "100 \<le> n" "n < 1000" | "1000 \<le> n" by linarith
  then show ?thesis
  proof cases
    case 1 then show ?thesis by (simp add: zfill_def str_nat_1 digit_char_0 replicate_123)
  next
    case 2 then show ?thesis by (simp add: zfill_def str_nat_2 digit_char_0 replicate_123)
  next
    case 3 then show ?thesis by (simp add: zfill_def str_nat_3 digit_char_0 replicate_123)
  next
    case 4 with n show ?thesis by (simp add: zfill_def str_nat_4)
  qed
qed

lemma hd_py_split_acc: "hd (py_split_acc [c] acc s) = rev acc @ takeWhile (\<lambda>x. x \<noteq> c) s"
  by (induction s arbitrary: acc) auto

lemma hd_py_split: "hd (py_split [c] s) = takeWhile (\<lambda>x. x \<noteq> c) s"
  by (simp add: py_split_def hd_py_split_acc)


lemma parse_month_Some:
  assumes "parse_month s = Some (m, r)"
  shows "1 \<le> m \<and> m \<le> 12 \<and> (\<exists>t \<in> set (month_texts m). s = t @ ''-'' @ r)"
proof -
  from assms consider
    (two) a b x y where "s = a # b # CHR ''-'' # r" "digit_of a = Some x" "digit_of b = Some y"
      "(x = 1 \<and> y \<le> 2) \<or> (x = 0 \<and> 1 \<le> y)" "m = 10 * x + y"
  | (one) a x where "s = a # CHR ''-'' # r" "digit_of a = Some x" "1 \<le> x" "m = x"
    unfolding parse_month_def
    by (auto split: list.splits option.splits if_splits)
  then show ?thesis
  proof cases
    case two
    from two(2,3) have xy: "x < 10" "y < 10" "a = digit_char x" "b = digit_char y"
      by (auto dest: digit_of_Some)
    from two(4,5) xy(2) have "m < 100" "m div 10 = x" "m mod 10 = y" "1 \<le> m" "m \<le> 12"
      by auto
    with two(1) xy show ?thesis
      by (simp add: month_texts_def zfill2)
  next
    case one
    from one(2) have x: "x < 10" "a = digit_char x"
      by (auto dest: digit_of_Some)
    with one show ?thesis
      by (simp add: month_texts_def str_nat_1)
  qed
qed

lemma parse_month_text:
  assumes "1 \<le> m" "m \<le> 12" "t \<in> set (month_texts m)"
  shows "parse_month (t @ ''-'' @ r) = Some (m, r)"
proof -
  have m: "m < 100" "m div 10 < 10" "m mod 10 < 10" using assms by auto
  have dm: "(m div 10 = 1 \<and> m mod 10 \<le> 2) \<or> (m div 10 = 0 \<and> 1 \<le> m mod 10)"
    using assms(1,2) by presburger
  have m10: "10 * (m div 10) + m mod 10 = m" by simp
  from assms(3) consider "t = [digit_char (m div 10), digit_char (m mod 10)]"
    | "m < 10" "t = [digit_char m]"
    by (auto simp: month_texts_def zfill2 [OF m(1)] str_nat_1 split: if_splits)
  then show ?thesis
  proof cases
    case 1
    with m dm m10 show ?thesis
      by (simp add: parse_month_def digit_of_digit_char)
  next
    case 2
    with assms(1) show ?thesis
      by (cases r) (simp_all add: parse_month_def digit_of_digit_char)
  qed
qed

lemma parse_day_Some:
  assumes "parse_day s = Some d"
  shows "1 \<le> d \<and> d \<le> 31 \<and> s \<in> set (day_texts d)"
proof -
  from assms consider
    (one) a where "s = [a]" "digit_of a = Some d" "1 \<le> d"
  | (two) a b x y where "s = [a, b]" "digit_of a = Some x" "digit_of b = Some y"
      "(x = 3 \<and> y \<le> 1) \<or> x = 1 \<or> x = 2 \<or> (x = 0 \<and> 1 \<le> y)" "d = 10 * x + y"
  | (space) b where "s = [CHR '' '', b]" "digit_of b = Some d" "1 \<le> d"
    unfolding parse_day_def
    by (auto split: list.splits option.splits if_splits)
  then show ?thesis
  proof cases
    case one
    from one(2) have "d < 10" "a = digit_char d" by (auto dest: digit_of_Some)
    with one show ?thesis by (simp add: day_texts_def str_nat_1)
  next
    case two
    from two(2,3) have xy: "x < 10" "y < 10" "a = digit_char x" "b = digit_char y"
      by (auto dest: digit_of_Some)
    from two(4,5) xy(2) have "d < 100" "d div 10 = x" "d mod 10 = y" "1 \<le> d" "d \<le> 31"
      by auto
    with two(1) xy show ?thesis by (simp add: day_texts_def zfill2)
  next
    case space
    from space(2) have "d < 10" "b = digit_char d" by (auto dest: digit_of_Some)
    with space show ?thesis by (simp add: day_texts_def str_nat_1)
  qed
qed

lemma parse_day_text:
  assumes "1 \<le> d" "d \<le> 31" "s \<in> set (day_texts d)"
  shows "parse_day s = Some d"
proof -
  have d: "d < 100" "d div 10 < 10" "d mod 10 < 10" using assms by auto
  have dd: "(d div 10 = 3 \<and> d mod 10 \<le> 1) \<or> d div 10 = 1 \<or> d div 10 = 2 \<or>
            (d div 10 = 0 \<and> 1 \<le> d mod 10)"
    using assms(1,2) by presburger
  have d10: "10 * (d div 10) + d mod 10 = d" by simp
  from assms(3) consider "s = [digit_char (d div 10), digit_char (d mod 10)]"
    | "d < 10" "s = [digit_char d]" | "d < 10" "s = [CHR '' '', digit_char d]"
    by (auto simp: day_texts_def zfill2 [OF d(1)] str_nat_1 split: if_splits)
  then show ?thesis
  proof cases
    case 1
    with d dd d10 show ?thesis
      by (simp add: parse_day_def digit_of_digit_char)
  next
    case 2
    with assms(1) show ?thesis
      by (simp add: parse_day_def digit_of_digit_char)
  next
    case 3
    with assms(1) show ?thesis
      by (simp add: parse_day_def digit_of_digit_char)
  qed
qed


lemma digits4:
  assumes "a < 10" "b < 10" "e < 10" "f < (10::nat)"
  shows "(1000 * a + 100 * b + 10 * e + f) div 1000 = a"
    and "(1000 * a + 100 * b + 10 * e + f) div 100 mod 10 = b"
    and "(1000 * a + 100 * b + 10 * e + f) div 10 mod 10 = e"
    and "(1000 * a + 100 * b + 10 * e + f) mod 10 = f"
    and "1000 * a + 100 * b + 10 * e + f < 10000"
proof -
  let ?n = "1000 * a + 100 * b + 10 * e + f"
  have n1: "?n = (10 * a + b) * 100 + (10 * e + f)" by simp
  have n2: "?n = (100 * a + 10 * b + e) * 10 + f" by simp
  have n3: "?n = a * 1000 + (100 * b + 10 * e + f)" by simp
  have r3: "100 * b + 10 * e + f < 1000" using assms by linarith
  have r1: "10 * e + f < 100" using assms by linarith
  show "?n div 1000 = a" unfolding n3 using r3 by simp
  have "?n div 100 = 10 * a + b" unfolding n1 using r1 by simp
  then show "?n div 100 mod 10 = b" using assms by simp
  have "?n div 10 = 100 * a + 10 * b + e" unfolding n2 using assms by simp
  then have d10: "?n div 10 = (10 * a + b) * 10 + e" by (simp only:) simp
  have "((10 * a + b) * 10 + e) mod 10 = e mod 10" by (rule mod_mult_self3)
  also have "e mod 10 = e" using assms(3) by (rule mod_less)
  finally have "((10 * a + b) * 10 + e) mod 10 = e" .
  then show "?n div 10 mod 10 = e" unfolding d10 .
  show "?n mod 10 = f" unfolding n2 using assms(4) by (simp only: mod_mult_self3 mod_less)
  show "?n < 10000" using assms by linarith
qed

lemma digits4_back:
  "1000 * (n div 1000) + 100 * (n div 100 mod 10) + 10 * (n div 10 mod 10) + n mod 10 = (n::nat)"
proof -
  have a: "n div 100 = 10 * (n div 1000) + n div 100 mod 10"
    using div_mult2_eq [of n 100 10] by simp
  have b: "n div 10 = 10 * (n div 100) + n div 10 mod 10"
    using div_mult2_eq [of n 10 10] by simp
  have c: "n = 10 * (n div 10) + n mod 10" by simp
  show ?thesis using a b c by linarith
qed

lemma strptime_Some:
  assumes "strptime_Y_m_d s = Some dt"
  shows "valid_date dt \<and> s \<in> set (date_texts dt)"
proof -
  from assms obtain y1 y2 y3 y4 r a b e f m r' d where
    s: "s = y1 # y2 # y3 # y4 # CHR ''-'' # r"
    and dg: "digit_of y1 = Some a" "digit_of y2 = Some b" "digit_of y3 = Some e"
            "digit_of y4 = Some f"
    and pm: "parse_month r = Some (m, r')" and pd: "parse_day r' = Some d"
    and dt: "dt = \<lparr>year = 1000 * a + 100 * b + 10 * e + f, month = m, day = d\<rparr>"
    and v: "valid_date dt"
    unfolding strptime_Y_m_d_def
    by (auto simp: Let_def split: list.splits option.splits if_splits)
  from dg have lt: "a < 10" "b < 10" "e < 10" "f < 10"
    and ch: "y1 = digit_char a" "y2 = digit_char b" "y3 = digit_char e" "y4 = digit_char f"
    by (auto dest: digit_of_Some)
  have y: "zfill 4 (str_nat (year dt)) = [y1, y2, y3, y4]"
    using digits4 [OF lt] by (simp add: dt zfill4 ch)
  from parse_month_Some [OF pm] obtain t where t: "t \<in> set (month_texts m)" "r = t @ ''-'' @ r'"
    by blast
  from parse_day_Some [OF pd] have d: "r' \<in> set (day_texts d)"
    by simp
  have "s \<in> set (date_texts dt)"
    unfolding date_texts_def using t d y by (auto simp: s dt)
  with v show ?thesis by simp
qed

lemma strptime_text:
  assumes "valid_date dt" "s \<in> set (date_texts dt)"
  shows "strptime_Y_m_d s = Some dt"
proof -
  obtain y m d where dt: "dt = \<lparr>year = y, month = m, day = d\<rparr>"
    by (cases dt) simp
  from assms(1) have y: "y < 10000" and m: "1 \<le> m" "m \<le> 12" and d: "1 \<le> d" "d \<le> 31"
    by (auto simp: valid_date_def dt days_in_month_def split: if_splits)
  from assms(2) obtain M D where MD: "M \<in> set (month_texts m)" "D \<in> set (day_texts d)"
    and s: "s = zfill 4 (str_nat y) @ ''-'' @ M @ ''-'' @ D"
    by (auto simp: date_texts_def dt)
  have dg: "y div 1000 < 10" "y div 100 mod 10 < 10" "y div 10 mod 10 < 10" "y mod 10 < 10"
    using y by auto
  show ?thesis
    using assms(1) parse_month_text [OF m MD(1), of D] parse_day_text [OF d MD(2)]
      digits4_back [of y]
    by (simp add: strptime_Y_m_d_def s zfill4 [OF y] digit_of_digit_char dg dt)
qed

lemma strftime_in_date_texts: "strftime_Y_m_d dt \<in> set (date_texts dt)"
  by (simp add: strftime_Y_m_d_def date_texts_def month_texts_def day_texts_def)

lemma date_text_no_T:
  assumes "valid_date dt" "p \<in> set (date_texts dt)"
  shows "CHR ''T'' \<notin> set p"
proof -
  obtain y m d where dt: "dt = \<lparr>year = y, month = m, day = d\<rparr>"
    by (cases dt) simp
  from assms(1) have y: "y < 10000" and m: "m < 100" and d: "d < 100"
    by (auto simp: valid_date_def dt days_in_month_def split: if_splits)
  from assms(2) show ?thesis
    by (auto simp: date_texts_def month_texts_def day_texts_def dt zfill4 [OF y]
        zfill2 [OF m] zfill2 [OF d] str_nat_1 split: if_splits)
qed

lemma hd_py_split_append:
  "c \<notin> set p \<Longrightarrow> hd (py_split [c] (p @ c # rest)) = p"
  by (auto simp: hd_py_split takeWhile_tail)

lemma hd_py_split_none:
  "c \<notin> set p \<Longrightarrow> hd (py_split [c] p) = p"
  by (auto simp: hd_py_split)

lemma two_digits:
  assumes "x < 10" "y < (10::nat)"
  shows "(10 * x + y) div 10 = x" "(10 * x + y) mod 10 = y" "10 * x + y < 100"
  using assms by auto

lemma timestamp_date_parse:
  assumes "timestamp_date s = Some dt"
  shows "parse_arxiv_date (Some s) = Some dt"
proof -
  from assms obtain y1 y2 y3 y4 m1 m2 d1 d2 time a b c d e f g h where
    s: "s = y1 # y2 # y3 # y4 # CHR ''-'' # m1 # m2 # CHR ''-'' # d1 # d2 # CHR ''T'' # time"
    and dg: "digit_of y1 = Some a" "digit_of y2 = Some b" "digit_of y3 = Some c"
      "digit_of y4 = Some d" "digit_of m1 = Some e" "digit_of m2 = Some f"
      "digit_of d1 = Some g" "digit_of d2 = Some h"
    and dt: "dt = \<lparr>year = 1000 * a + 100 * b + 10 * c + d, month = 10 * e + f,
                    day = 10 * g + h\<rparr>"
    and v: "valid_date dt"
    unfolding timestamp_date_def
    by (auto simp: Let_def split: list.splits option.splits if_splits)
  from dg have lt: "a < 10" "b < 10" "c < 10" "d < 10" "e < 10" "f < 10" "g < 10" "h < 10"
    and ch: "y1 = digit_char a" "y2 = digit_char b" "y3 = digit_char c" "y4 = digit_char d"
      "m1 = digit_char e" "m2 = digit_char f" "d1 = digit_char g" "d2 = digit_char h"
    by (auto dest: digit_of_Some)
  have y: "zfill 4 (str_nat (year dt)) = [y1, y2, y3, y4]"
    using digits4 [OF lt(1-4)] by (simp add: dt zfill4 ch)
  have m: "zfill 2 (str_nat (month dt)) = [m1, m2]"
    using two_digits [OF lt(5,6)] by (simp add: dt zfill2 ch)
  have d: "zfill 2 (str_nat (day dt)) = [d1, d2]"
    using two_digits [OF lt(7,8)] by (simp add: dt zfill2 ch)
  have "s = strftime_Y_m_d dt @ ''T'' @ time"
    by (simp add: strftime_Y_m_d_def y m d s)
  moreover have "hd (py_split ''T'' (strftime_Y_m_d dt @ ''T'' @ time)) = strftime_Y_m_d dt"
    using hd_py_split_append [OF date_text_no_T [OF v strftime_in_date_texts]] by simp
  ultimately show ?thesis
    by (simp add: parse_arxiv_date_def strptime_text [OF v strftime_in_date_texts])
qed

lemmas date_evals =
  parse_arxiv_date_def py_split_def strptime_Y_m_d_def parse_month_def parse_day_def
  digit_of_def valid_date_def days_in_month_def is_leap_def timestamp_date_def

section \<open>Date parsing\<close>

text \<open>
  Claim C6, as the code has it. \<open>parse_arxiv_date\<close> gives no date for an absent input; it
  maps every well-formed timestamp (date part, \<open>T\<close>, time part ending in the zone marker)
  to the calendar date that its date part names; and it gives a date exactly for the
  strings whose text before the first \<open>T\<close> is one of the texts that \<open>%Y-%m-%d\<close> accepts for
  a calendar date, and that date is the result. So a string with a malformed date part
  gives no date, whatever follows the \<open>T\<close>; what follows the \<open>T\<close> is never looked at.
\<close>

theorem parse_arxiv_date_spec:
  "parse_arxiv_date None = None \<and>
   (timestamp_date s = Some dt \<longrightarrow> parse_arxiv_date (Some s) = Some dt) \<and>
   (parse_arxiv_date (Some s') = Some dt' \<longleftrightarrow>
      valid_date dt' \<and> hd (py_split ''T'' s') \<in> set (date_texts dt'))"
proof (intro conjI impI)
  show "parse_arxiv_date None = None"
    by (simp add: parse_arxiv_date_def)
next
  assume "timestamp_date s = Some dt"
  then show "parse_arxiv_date (Some s) = Some dt"
    by (rule timestamp_date_parse)
next
  show "parse_arxiv_date (Some s') = Some dt' \<longleftrightarrow>
      valid_date dt' \<and> hd (py_split ''T'' s') \<in> set (date_texts dt')"
  proof
    assume "parse_arxiv_date (Some s') = Some dt'"
    then have "strptime_Y_m_d (hd (py_split ''T'' s')) = Some dt'"
      by (simp add: parse_arxiv_date_def)
    then show "valid_date dt' \<and> hd (py_split ''T'' s') \<in> set (date_texts dt')"
      by (rule strptime_Some)
  next
    assume "valid_date dt' \<and> hd (py_split ''T'' s') \<in> set (date_texts dt')"
    then have "strptime_Y_m_d (hd (py_split ''T'' s')) = Some dt'"
      by (simp add: strptime_text)
    then show "parse_arxiv_date (Some s') = Some dt'"
      by (simp add: parse_arxiv_date_def)
  qed
qed

theorem parse_arxiv_date_spec_witness:
  "parse_arxiv_date None = None \<and>
   timestamp_date ''2024-11-20T12:34:56Z'' = Some \<lparr>year = 2024, month = 11, day = 20\<rparr> \<and>
   parse_arxiv_date (Some ''2024-11-20T12:34:56Z'') = Some \<lparr>year = 2024, month = 11, day = 20\<rparr> \<and>
   parse_arxiv_date (Some ''invalid'') \<noteq> Some \<lparr>year = 2024, month = 11, day = 20\<rparr> \<and>
   hd (py_split ''T'' ''invalid'') \<notin> set (date_texts \<lparr>year = 2024, month = 11, day = 20\<rparr>)"
  using parse_arxiv_date_spec [of "''2024-11-20T12:34:56Z''" "\<lparr>year = 2024, month = 11, day = 20\<rparr>"
    "''invalid''" "\<lparr>year = 2024, month = 11, day = 20\<rparr>"]
  by (simp add: date_evals)

text \<open>
  The claim as worded fails: a string that is no well-formed timestamp (its time part is
  not a time and carries no zone marker) is still mapped to a date.
\<close>

theorem parse_arxiv_date_malformed_counterexample:
  "timestamp_date ''2024-11-20Tgarbage'' = None \<and>
   parse_arxiv_date (Some ''2024-11-20Tgarbage'') = Some \<lparr>year = 2024, month = 11, day = 20\<rparr>"
  by (simp add: date_evals)

section \<open>Keyword matching\<close>

lemma foldl_match_keyword:
  \<open>foldl (match_keyword tlow alow) acc ks =
     acc @ map (\<lambda>keyword. keyword @ '' ('' @
                 py_join '', ''
                   ((if py_in (lower (py_strip (CHR ''"'') keyword)) tlow then [''title''] else []) @
                    (if py_in (lower (py_strip (CHR ''"'') keyword)) alow then [''abstract'']
                     else [])) @ '')'')
             (filter (\<lambda>keyword. py_in (lower (py_strip (CHR ''"'') keyword)) tlow \<or>
                                  py_in (lower (py_strip (CHR ''"'') keyword)) alow) ks)\<close>
  by (induction ks arbitrary: acc) (simp_all add: match_keyword_def Let_def)

text \<open>
  Claim C10. \<open>find_matching_keywords\<close> keeps, in order, the keywords whose text, stripped of
  leading and trailing double quotes and lower-cased, occurs in the lower-cased title or
  abstract; each is reported in its original spelling, quotes included, followed by the
  places where it was found. The keyword \<open>"ALMA"\<close>, written with its quotes, matches an
  abstract that contains \<open>alma\<close> and is reported with the quotes.
\<close>

theorem find_matching_keywords_quotes:
  \<open>find_matching_keywords t a keywords =
     map (\<lambda>keyword. keyword @ '' ('' @
            py_join '', ''
              ((if py_in (lower (py_strip (CHR ''"'') keyword)) (lower t)
                then [''title''] else []) @
               (if py_in (lower (py_strip (CHR ''"'') keyword)) (lower a)
                then [''abstract''] else [])) @ '')'')
       (filter (\<lambda>keyword. py_in (lower (py_strip (CHR ''"'') keyword)) (lower t) \<or>
                            py_in (lower (py_strip (CHR ''"'') keyword)) (lower a))
          keywords) \<and>
   py_strip (CHR ''"'') ''"ALMA"'' = ''ALMA'' \<and>
   find_matching_keywords ''Deep fields'' ''New alma observations'' [''"ALMA"''] =
     [''"ALMA" (abstract)'']\<close>
proof (intro conjI)
  show \<open>py_strip (CHR ''"'') ''"ALMA"'' = ''ALMA''\<close>
    by (simp add: py_strip_def)
  show \<open>find_matching_keywords ''Deep fields'' ''New alma observations'' [''"ALMA"''] =
     [''"ALMA" (abstract)'']\<close>
    by (simp add: find_matching_keywords_def match_keyword_def lower_def lower_char_def
        py_strip_def)
qed (simp add: find_matching_keywords_def foldl_match_keyword)

section \<open>Query construction\<close>

lemma cat_prefix_fun:
  "(@) ''cat:'' = (\<lambda>cat. CHR ''c'' # CHR ''a'' # CHR ''t'' # CHR '':'' # cat)"
  by (rule ext) simp

text \<open>
  Claim C4. With a non-empty list of categories, no keywords, no authors and a missing date
  bound, the query has a single part: the \<open>cat:\<close> clauses, one for each category in order,
  joined by \<open>OR\<close> inside one pair of parentheses. No other clause is added, and the query
  is that part.
\<close>

theorem build_arxiv_query_categories_only:
  assumes "cats \<noteq> []" "\<not> truthy keywords" "\<not> truthy authors"
    "start_date = None \<or> end_date = None"
  shows "query_parts (Some cats) keywords authors start_date end_date =
           [''('' @ py_join '' OR '' (map (\<lambda>cat. ''cat:'' @ cat) cats) @ '')''] \<and>
         build_arxiv_query (Some cats) keywords authors start_date end_date =
           ''('' @ py_join '' OR '' (map (\<lambda>cat. ''cat:'' @ cat) cats) @ '')''"
  using assms
  by (auto simp: build_arxiv_query_def query_parts_def cat_prefix_fun split: option.splits)

theorem build_arxiv_query_categories_only_witness:
  "[''astro-ph.ga'', ''astro-ph.co''] \<noteq> [] \<and> \<not> truthy (None :: string list option) \<and>
   \<not> truthy (Some ([] :: string list)) \<and> ((None :: date option) = None \<or> (None :: date option) = None) \<and>
   build_arxiv_query (Some [''astro-ph.ga'', ''astro-ph.co'']) None (Some []) None None =
     ''(cat:astro-ph.ga OR cat:astro-ph.co)''"
  using build_arxiv_query_categories_only [of "[''astro-ph.ga'', ''astro-ph.co'']" None "Some []" None None]
  by simp

section \<open>Pagination\<close>

declare fetch_pages.simps [simp del]

lemma requests_add_entry [simp]: "requests (add_entry st entry) = requests st"
  by (simp add: add_entry_def Let_def)

lemma requests_foldl_add_entry [simp]: "requests (foldl add_entry st entries) = requests st"
  by (induction entries arbitrary: st) simp_all

lemma fetch_pages_trace:
  "\<exists>m. fst (fetch_pages api c kb a sw y cap start p st) = p + m \<and>
       requests (snd (fetch_pages api c kb a sw y cap start p st)) =
         requests st @ map (\<lambda>i. start + max_results_per_call * i) [0..<m] \<and>
       (\<forall>i. Suc i < m \<longrightarrow>
          full_page (fetch_arxiv_batch api c kb a (Some sw) (Some y) max_results_per_call
                       (start + max_results_per_call * i))) \<and>
       (0 < m \<longrightarrow>
          \<not> full_page (fetch_arxiv_batch api c kb a (Some sw) (Some y) max_results_per_call
                         (start + max_results_per_call * (m - 1))) \<or>
          cap \<le> start + max_results_per_call * m) \<and>
       (0 < m \<longrightarrow> start + max_results_per_call * (m - 1) < cap) \<and>
       (start < cap \<longrightarrow> 0 < m)"
proof (induction api c kb a sw y cap start p st rule: fetch_pages.induct)
  case (1 api c kb a sw y cap start p st)
  let ?pg = "\<lambda>off. fetch_arxiv_batch api c kb a (Some sw) (Some y) max_results_per_call off"
  let ?st = "st\<lparr>requests := requests st @ [start]\<rparr>"
  show ?case
  proof (cases "start < cap")
    case False
    then show ?thesis
      by (subst (1 2) fetch_pages.simps) (intro exI [of _ 0], simp)
  next
    case lt: True
    show ?thesis
    proof (cases "full_page (?pg start)")
      case False
      then have "fetch_pages api c kb a sw y cap start p st =
                   (p + 1, case ?pg start of None \<Rightarrow> ?st
                           | Some entries \<Rightarrow> if length entries = 0 then ?st
                                              else foldl add_entry ?st entries)"
        using lt
        by (subst fetch_pages.simps)
           (auto simp: full_page_def Let_def max_results_per_call_def split: option.splits)
      moreover have "requests (case ?pg start of None \<Rightarrow> ?st
                           | Some entries \<Rightarrow> if length entries = 0 then ?st
                                              else foldl add_entry ?st entries) =
                     requests st @ [start]"
        by (simp split: option.splits)
      ultimately show ?thesis
        using False lt by (intro exI [of _ 1]) simp
    next
      case full: True
      then obtain entries where pg: "?pg start = Some entries"
        and len: "max_results_per_call \<le> length entries"
        by (auto simp: full_page_def split: option.splits)
      let ?st' = "foldl add_entry ?st entries"
      have rec: "fetch_pages api c kb a sw y cap start p st =
                 fetch_pages api c kb a sw y cap (start + max_results_per_call) (p + 1) ?st'"
        using lt pg len
        by (subst fetch_pages.simps) (auto simp: Let_def max_results_per_call_def)
      from len have ne: "length entries \<noteq> 0" "\<not> length entries < max_results_per_call"
        by (auto simp: max_results_per_call_def)
      from "1.IH" [OF lt refl refl pg ne]
      obtain m where m:
        "fst (fetch_pages api c kb a sw y cap (start + max_results_per_call) (p + 1) ?st') =
           p + 1 + m"
        "requests (snd (fetch_pages api c kb a sw y cap (start + max_results_per_call) (p + 1)
                          ?st')) =
           requests ?st' @ map (\<lambda>i. start + max_results_per_call + max_results_per_call * i)
                             [0..<m]"
        "\<forall>i. Suc i < m \<longrightarrow>
           full_page (?pg (start + max_results_per_call + max_results_per_call * i))"
        "0 < m \<longrightarrow>
           \<not> full_page (?pg (start + max_results_per_call + max_results_per_call * (m - 1))) \<or>
           cap \<le> start + max_results_per_call + max_results_per_call * m"
        "0 < m \<longrightarrow> start + max_results_per_call + max_results_per_call * (m - 1) < cap"
        "start + max_results_per_call < cap \<longrightarrow> 0 < m"
        by blast
      have a: "fst (fetch_pages api c kb a sw y cap start p st) = p + Suc m"
        using m(1) rec by simp
      have b: "requests (snd (fetch_pages api c kb a sw y cap start p st)) =
                 requests st @ map (\<lambda>i. start + max_results_per_call * i) [0..<Suc m]"
        using m(2) rec by (simp add: map_upt_Suc del: upt_Suc)
      have c: "\<forall>i. Suc i < Suc m \<longrightarrow> full_page (?pg (start + max_results_per_call * i))"
      proof (intro allI impI)
        fix i assume i: "Suc i < Suc m"
        show "full_page (?pg (start + max_results_per_call * i))"
        proof (cases i)
          case 0 then show ?thesis using full by simp
        next
          case (Suc j)
          with i m(3) have "full_page (?pg (start + max_results_per_call + max_results_per_call * j))"
            by simp
          then show ?thesis by (simp add: Suc add.assoc)
        qed
      qed
      have d: "\<not> full_page (?pg (start + max_results_per_call * (Suc m - 1))) \<or>
               cap \<le> start + max_results_per_call * Suc m"
      proof (cases m)
        case 0
        with m(6) show ?thesis by simp
      next
        case (Suc j)
        with m(4) show ?thesis by (simp add: add.assoc)
      qed
      have e: "start + max_results_per_call * (Suc m - 1) < cap"
      proof (cases m)
        case 0 with lt show ?thesis by simp
      next
        case (Suc j)
        with m(5) show ?thesis by (simp add: add.assoc)
      qed
      from a b c d e show ?thesis
        by (intro exI [of _ "Suc m"]) simp
    qed
  qed
qed


lemma ceil_bound:
  assumes "0 < n \<longrightarrow> 200 * (n - 1) < cap"
  shows "n \<le> (cap + 199) div (200::nat)"
proof (cases n)
  case 0 then show ?thesis by simp
next
  case (Suc j)
  with assms have "200 * j < cap" by simp
  then have "Suc j * 200 \<le> cap + 199" by simp
  then show ?thesis unfolding Suc by (simp only: less_eq_div_iff_mult_less_eq zero_less_numeral)
qed

text \<open>
  Claim C7. For one keyword batch the loop starts at offset 0 with \<open>page_num\<close> 0. Its
  requests are at the offsets 0, 200, 400 and so on, as many as the final \<open>page_num\<close>; their
  number is at most the cap divided by the page size, rounded up; every request but the
  last got a full page; and the last request either got a page that is not full (the
  request failed, or the response had no entries or fewer than the page size) or is the
  last one below the cap. The loop is a total function: it returns for every service. The
  cap that \<open>arxiv_alert\<close> computes allows at most ten requests for a batch.
\<close>

theorem pagination_stops:
  "(let r = fetch_pages api c kb a sw y cap 0 0 st; n = fst r
    in requests (snd r) = requests st @ map (\<lambda>i. max_results_per_call * i) [0..<n] \<and>
       n \<le> (cap + (max_results_per_call - 1)) div max_results_per_call \<and>
       (\<forall>i. Suc i < n \<longrightarrow>
          full_page (fetch_arxiv_batch api c kb a (Some sw) (Some y) max_results_per_call
                       (max_results_per_call * i))) \<and>
       (0 < n \<longrightarrow>
          \<not> full_page (fetch_arxiv_batch api c kb a (Some sw) (Some y) max_results_per_call
                         (max_results_per_call * (n - 1))) \<or>
          cap \<le> max_results_per_call * n) \<and>
       (0 < cap \<longrightarrow> 0 < n)) \<and>
   (max_total_results_of amount_of_days + (max_results_per_call - 1)) div max_results_per_call
     \<le> 10"
proof -
  have cap10: "(max_total_results_of amount_of_days + (max_results_per_call - 1)) div
                 max_results_per_call \<le> 10"
    by (simp add: max_total_results_of_def max_results_per_call_def amount_of_def)
  from fetch_pages_trace [of api c kb a sw y cap 0 0 st]
  obtain m where m:
    "fst (fetch_pages api c kb a sw y cap 0 0 st) = m"
    "requests (snd (fetch_pages api c kb a sw y cap 0 0 st)) =
       requests st @ map (\<lambda>i. max_results_per_call * i) [0..<m]"
    "\<forall>i. Suc i < m \<longrightarrow>
       full_page (fetch_arxiv_batch api c kb a (Some sw) (Some y) max_results_per_call
                    (max_results_per_call * i))"
    "0 < m \<longrightarrow>
       \<not> full_page (fetch_arxiv_batch api c kb a (Some sw) (Some y) max_results_per_call
                      (max_results_per_call * (m - 1))) \<or>
       cap \<le> max_results_per_call * m"
    "0 < m \<longrightarrow> max_results_per_call * (m - 1) < cap"
    "0 < cap \<longrightarrow> 0 < m"
    by auto
  from m(5) have "m \<le> (cap + (max_results_per_call - 1)) div max_results_per_call"
    using ceil_bound [of m cap] by (simp add: max_results_per_call_def)
  with m cap10 show ?thesis
    by (simp add: Let_def)
qed

theorem pagination_stops_witness:
  "(let sample_paper = paper ''2411.00001v1'' [''astro-ph.GA''] ''2024-11-20T12:34:56Z'';
        api = (\<lambda>q start m. if start = 0 then Some (replicate 200 sample_paper) else Some [sample_paper]);
        d = \<lparr>year = 2024, month = 11, day = 20\<rparr>;
        st = \<lparr>all_entries = [], all_entry_ids = {}, requests = []\<rparr>;
        r = fetch_pages api None None None d d 2000 0 0 st
    in fst r = 2 \<and> requests (snd r) = [0, 200] \<and>
       full_page (fetch_arxiv_batch api None None None (Some d) (Some d) max_results_per_call 0) \<and>
       \<not> full_page (fetch_arxiv_batch api None None None (Some d) (Some d)
                      max_results_per_call 200) \<and>
       (2::nat) \<le> (2000 + (max_results_per_call - 1)) div max_results_per_call)"
proof -
  let ?p = "paper ''2411.00001v1'' [''astro-ph.GA''] ''2024-11-20T12:34:56Z''"
  let ?api = "\<lambda>(q::string) (start::nat) (m::nat).
                if start = 0 then Some (replicate 200 ?p) else Some [?p]"
  let ?d = "\<lparr>year = 2024, month = 11, day = 20\<rparr>"
  let ?st = "\<lparr>all_entries = [], all_entry_ids = {}, requests = []\<rparr>"
  have f: "fst (fetch_pages ?api None None None ?d ?d 2000 0 0 ?st) = 2"
    by (simp add: fetch_pages.simps [of _ _ _ _ _ _ _ 0] fetch_pages.simps [of _ _ _ _ _ _ _ 200]
        fetch_arxiv_batch_def max_results_per_call_def Let_def)
  show ?thesis
    using pagination_stops [of ?api None None None ?d ?d 2000 ?st 1] f
    by (simp add: Let_def fetch_arxiv_batch_def full_page_def max_results_per_call_def
        numeral_2_eq_2)
qed

section \<open>The dedup store\<close>

lemma clean_small:
  "card S \<le> 1000 \<Longrightarrow> clean_old_processed_papers lst S = S"
  by (simp add: clean_old_processed_papers_def)

lemma clean_large:
  assumes "enumerates lst S" "1000 < card S"
  shows "clean_old_processed_papers lst S \<subseteq> S \<and> card (clean_old_processed_papers lst S) = 500"
proof -
  let ?l = "lst S"
  from assms(1) have d: "distinct ?l" and s: "set ?l = S"
    by (simp_all add: enumerates_def)
  from d s have len: "length ?l = card S"
    using distinct_card by fastforce
  have c: "clean_old_processed_papers lst S = set (drop (length ?l - 500) ?l)"
    using assms(2) by (simp add: clean_old_processed_papers_def Let_def)
  have "set (drop (length ?l - 500) ?l) \<subseteq> S"
    using s set_drop_subset by fastforce
  moreover have "card (set (drop (length ?l - 500) ?l)) = length (drop (length ?l - 500) ?l)"
    using d by (intro distinct_card) simp
  moreover have "length (drop (length ?l - 500) ?l) = 500"
    using len assms(2) by simp
  ultimately show ?thesis
    by (simp add: c)
qed

lemma clean_card_le:
  assumes "enumerates lst S"
  shows "card (clean_old_processed_papers lst S) \<le> 1000"
proof (cases "1000 < card S")
  case True
  with clean_large [OF assms] show ?thesis by simp
next
  case False
  then show ?thesis by (simp add: clean_small)
qed

lemma stored_digest:
  assumes "digest (arxiv_alert e P n c k a x) = Some st"
  shows "stored (arxiv_alert e P n c k a x) =
           clean_old_processed_papers (list_of e) (P \<union> new_processed_papers st)"
  using assms by (auto simp: arxiv_alert_def Let_def split: if_splits)

section \<open>The main loop\<close>

lemma process_entry_body:
  "body (process_entry gc P sw y c x k st e) =
     body st @ (if filter_verdict c x k e = Accepted
                then entry_block gc k e (base_of e \<in> P) (matching_keywords_of k e) else [])"
  by (simp add: process_entry_def filter_verdict_def Let_def base_of_def)

lemma process_entry_new_count:
  "new_papers_count (process_entry gc P sw y c x k st e) =
     new_papers_count st + (if filter_verdict c x k e = Accepted \<and> base_of e \<notin> P then 1 else 0)"
  by (simp add: process_entry_def filter_verdict_def Let_def base_of_def)

lemma process_entry_new_processed:
  "new_processed_papers (process_entry gc P sw y c x k st e) =
     (if filter_verdict c x k e = Accepted \<and> base_of e \<notin> P
      then insert (base_of e) (new_processed_papers st) else new_processed_papers st)"
  by (simp add: process_entry_def filter_verdict_def Let_def base_of_def)

lemma process_entry_shown:
  "shown_papers_count (process_entry gc P sw y c x k st e) =
     shown_papers_count st + (if filter_verdict c x k e = Accepted then 1 else 0)"
  by (simp add: process_entry_def filter_verdict_def Let_def base_of_def)

lemma process_entry_already:
  "already_processed_count (process_entry gc P sw y c x k st e) =
     already_processed_count st + (if base_of e \<in> P then 1 else 0)"
  by (simp add: process_entry_def filter_verdict_def Let_def base_of_def)

lemma process_entry_filtered:
  "filtered_papers_count (process_entry gc P sw y c x k st e) =
     filtered_papers_count st +
     (if filter_verdict c x k e = RejectedRequired \<or> filter_verdict c x k e = RejectedExcluded
      then 1 else 0)"
  by (simp add: process_entry_def filter_verdict_def Let_def base_of_def)

lemma process_entry_no_keywords:
  "no_keywords_count (process_entry gc P sw y c x k st e) =
     no_keywords_count st + (if filter_verdict c x k e = RejectedKeywords then 1 else 0)"
  by (simp add: process_entry_def filter_verdict_def Let_def base_of_def)

lemma foldl_body:
  "body (foldl (process_entry gc P sw y c x k) st es) =
     body st @ concat (map (\<lambda>e. entry_block gc k e (base_of e \<in> P) (matching_keywords_of k e))
                         (filter (\<lambda>e. filter_verdict c x k e = Accepted) es))"
  by (induction es arbitrary: st) (simp_all add: process_entry_body)

lemma foldl_new_count:
  "new_papers_count (foldl (process_entry gc P sw y c x k) st es) =
     new_papers_count st +
     length (filter (\<lambda>e. filter_verdict c x k e = Accepted \<and> base_of e \<notin> P) es)"
  by (induction es arbitrary: st) (simp_all add: process_entry_new_count)

lemma foldl_new_processed:
  "new_processed_papers (foldl (process_entry gc P sw y c x k) st es) =
     new_processed_papers st \<union>
     base_of ` {e \<in> set es. filter_verdict c x k e = Accepted \<and> base_of e \<notin> P}"
  by (induction es arbitrary: st) (auto simp: process_entry_new_processed)

lemma foldl_shown:
  "shown_papers_count (foldl (process_entry gc P sw y c x k) st es) =
     shown_papers_count st + length (filter (\<lambda>e. filter_verdict c x k e = Accepted) es)"
  by (induction es arbitrary: st) (simp_all add: process_entry_shown)

lemma foldl_already:
  "already_processed_count (foldl (process_entry gc P sw y c x k) st es) =
     already_processed_count st + length (filter (\<lambda>e. base_of e \<in> P) es)"
  by (induction es arbitrary: st) (simp_all add: process_entry_already)

lemma foldl_filtered:
  "filtered_papers_count (foldl (process_entry gc P sw y c x k) st es) =
     filtered_papers_count st +
     length (filter (\<lambda>e. filter_verdict c x k e = RejectedRequired \<or>
                          filter_verdict c x k e = RejectedExcluded) es)"
  by (induction es arbitrary: st) (simp_all add: process_entry_filtered)

lemma foldl_no_keywords:
  "no_keywords_count (foldl (process_entry gc P sw y c x k) st es) =
     no_keywords_count st + length (filter (\<lambda>e. filter_verdict c x k e = RejectedKeywords) es)"
  by (induction es arbitrary: st) (simp_all add: process_entry_no_keywords)

lemmas process_entries_fields =
  foldl_body foldl_new_count foldl_new_processed foldl_shown foldl_already foldl_filtered
  foldl_no_keywords



section \<open>The run and its store\<close>

lemma arxiv_alert_empty:
  assumes "fetched_entries e n c k a = []"
  shows "digest (arxiv_alert e P n c k a x) = None" "stored (arxiv_alert e P n c k a x) = P"
  using assms by (simp_all add: arxiv_alert_def)

lemma arxiv_alert_digest:
  assumes "fetched_entries e n c k a \<noteq> []"
  shows "digest (arxiv_alert e P n c k a x) =
           Some (main_loop e P n c x k (fetched_entries e n c k a))"
    and "stored (arxiv_alert e P n c k a x) =
           clean_old_processed_papers (list_of e)
             (P \<union> new_processed_papers (main_loop e P n c x k (fetched_entries e n c k a)))"
    and "html (arxiv_alert e P n c k a x) =
           body (main_loop e P n c x k (fetched_entries e n c k a)) @
           closing (length (fetched_entries e n c k a))
             (main_loop e P n c x k (fetched_entries e n c k a))"
  using assms by (simp_all add: arxiv_alert_def Let_def)

lemma main_loop_new_count:
  "new_papers_count (main_loop e P n c x k es) =
     length (filter (\<lambda>e'. filter_verdict c x k e' = Accepted \<and> base_of e' \<notin> P) es)"
  by (simp add: main_loop_def process_entries_def foldl_new_count)

lemma main_loop_new_processed:
  "new_processed_papers (main_loop e P n c x k es) =
     base_of ` {e' \<in> set es. filter_verdict c x k e' = Accepted \<and> base_of e' \<notin> P}"
  by (simp add: main_loop_def process_entries_def foldl_new_processed)




lemma finite_clean:
  "finite S \<Longrightarrow> finite (clean_old_processed_papers lst S)"
  by (simp add: clean_old_processed_papers_def Let_def)

text \<open>
  Claim C8. \<open>clean_old_processed_papers\<close> returns a set of at most 1000 elements unchanged; of
  a larger set, which the runtime lists with every element once, it returns a subset of
  500 elements. So whenever a run writes the store (it does after every run that fetched an
  entry), the store it writes is finite and holds at most 1000 identifiers.
\<close>

theorem clean_old_processed_papers_cap:
  "(card S \<le> 1000 \<longrightarrow> clean_old_processed_papers lst S = S) \<and>
   (enumerates lst S \<and> 1000 < card S \<longrightarrow>
      clean_old_processed_papers lst S \<subseteq> S \<and> card (clean_old_processed_papers lst S) = 500) \<and>
   (digest (arxiv_alert e P n c k a x) = Some st \<and> finite P \<and>
    enumerates (list_of e) (P \<union> new_processed_papers st) \<longrightarrow>
      finite (stored (arxiv_alert e P n c k a x)) \<and>
      card (stored (arxiv_alert e P n c k a x)) \<le> 1000)"
proof (intro conjI impI)
  assume "card S \<le> 1000"
  then show "clean_old_processed_papers lst S = S"
    by (rule clean_small)
next
  assume h: "enumerates lst S \<and> 1000 < card S"
  then show "clean_old_processed_papers lst S \<subseteq> S"
    using clean_large [of lst S] by simp
  from h show "card (clean_old_processed_papers lst S) = 500"
    using clean_large [of lst S] by simp
next
  assume h: "digest (arxiv_alert e P n c k a x) = Some st \<and> finite P \<and>
    enumerates (list_of e) (P \<union> new_processed_papers st)"
  then have s: "stored (arxiv_alert e P n c k a x) =
           clean_old_processed_papers (list_of e) (P \<union> new_processed_papers st)"
    using stored_digest by blast
  with h show "card (stored (arxiv_alert e P n c k a x)) \<le> 1000"
    using clean_card_le by simp
  from h have "fetched_entries e n c k a \<noteq> []"
    using arxiv_alert_empty(1) [of e n c k a P x] by auto
  with h have "st = main_loop e P n c x k (fetched_entries e n c k a)"
    using arxiv_alert_digest(1) [of e n c k a P x] by simp
  then have "finite (new_processed_papers st)"
    by (simp add: main_loop_new_processed)
  with h show "finite (stored (arxiv_alert e P n c k a x))"
    unfolding s by (intro finite_clean) simp
qed

text \<open>
  Claim C9, as the code has it. When the store with the first run's new identifiers holds
  at most 1000 identifiers, so that nothing is pruned, a second run from the store that the
  first run wrote, against the same service, counts no new paper.
\<close>

theorem rerun_no_new_papers:
  assumes "card (P \<union> new_processed_papers (main_loop e P n c x k (fetched_entries e n c k a)))
             \<le> 1000"
    and "digest (arxiv_alert e (stored (arxiv_alert e P n c k a x)) n c k a x) = Some st2"
  shows "new_papers_count st2 = 0"
proof -
  let ?es = "fetched_entries e n c k a"
  let ?st1 = "main_loop e P n c x k ?es"
  from assms(2) have ne: "?es \<noteq> []"
    using arxiv_alert_empty(1) [of e n c k a _ x] by auto
  have s1: "stored (arxiv_alert e P n c k a x) = P \<union> new_processed_papers ?st1"
    using arxiv_alert_digest(2) [OF ne, of P x] clean_small [OF assms(1)] by simp
  from assms(2) have st2: "st2 = main_loop e (P \<union> new_processed_papers ?st1) n c x k ?es"
    using arxiv_alert_digest(1) [OF ne] s1 by simp
  have "filter (\<lambda>e'. filter_verdict c x k e' = Accepted \<and>
                 base_of e' \<notin> P \<union> new_processed_papers ?st1) ?es = []"
    by (auto simp: filter_empty_conv main_loop_new_processed)
  then show ?thesis
    unfolding st2 main_loop_new_count by simp
qed


lemma digit_char_inj:
  assumes "digit_char i = digit_char j" "i < 10" "j < 10"
  shows "i = j"
  using assms digit_of_digit_char by (metis option.inject)

lemma str_nat_4_inj:
  assumes "str_nat n = str_nat m" "1000 \<le> n" "n < 10000" "1000 \<le> m" "m < 10000"
  shows "n = m"
proof -
  from assms have eq:
    "digit_char (n div 1000) = digit_char (m div 1000)"
    "digit_char (n div 100 mod 10) = digit_char (m div 100 mod 10)"
    "digit_char (n div 10 mod 10) = digit_char (m div 10 mod 10)"
    "digit_char (n mod 10) = digit_char (m mod 10)"
    by (simp_all add: str_nat_4)
  have a: "n div 1000 = m div 1000"
    using eq(1) assms(3,5) by (intro digit_char_inj) simp_all
  have b: "n div 100 mod 10 = m div 100 mod 10"
    using eq(2) by (intro digit_char_inj) simp_all
  have c: "n div 10 mod 10 = m div 10 mod 10"
    using eq(3) by (intro digit_char_inj) simp_all
  have d: "n mod 10 = m mod 10"
    using eq(4) by (intro digit_char_inj) simp_all
  have "n = 1000 * (n div 1000) + 100 * (n div 100 mod 10) + 10 * (n div 10 mod 10) + n mod 10"
    by (rule digits4_back [symmetric])
  also have "\<dots> = 1000 * (m div 1000) + 100 * (m div 100 mod 10) + 10 * (m div 10 mod 10) +
                      m mod 10"
    by (simp only: a b c d)
  also have "\<dots> = m"
    by (rule digits4_back)
  finally show ?thesis .
qed

lemma old_ids_facts:
  "length old_ids = 1000" "distinct old_ids" "''2411.00001'' \<notin> set old_ids"
proof -
  show "length old_ids = 1000"
    by (simp add: old_ids_def del: upt_rec_numeral)
  have "inj_on (\<lambda>n. ''2410.0'' @ str_nat n) {1000..<2000}"
    by (rule inj_onI) (auto dest: str_nat_4_inj)
  then show "distinct old_ids"
    by (simp add: old_ids_def distinct_map del: upt_rec_numeral)
  show "''2411.00001'' \<notin> set old_ids"
    by (auto simp: old_ids_def simp del: upt_rec_numeral)
qed

lemma card_old_ids: "card (insert ''2411.00001'' (set old_ids)) = 1001"
  using old_ids_facts by (simp add: distinct_card)

lemma sample_base: "base_of (paper ''2411.00001v1'' cats d) = ''2411.00001''"
  by (simp add: base_of_def arxiv_id_of_def base_arxiv_id_def paper_def py_split_def)

lemma sample_fetched:
  "fetched_entries (sample_env (one_page [paper ''2411.00001v1'' cats d]) lst) 1 c None a =
     [paper ''2411.00001v1'' cats d]"
  by (simp add: fetched_entries_def fetch_all_def keyword_batches_def
      fetch_pages.simps [of _ _ _ _ _ _ _ 0] fetch_arxiv_batch_def one_page_def sample_env_def
      max_total_results_of_def amount_of_def max_results_per_call_def add_entry_def Let_def)

lemma sample_verdict: "filter_verdict None None None entry = Accepted"
  by (simp add: filter_verdict_def)

lemma sample_new_processed:
  "new_processed_papers (main_loop e P 1 None None None [paper ''2411.00001v1'' cats d]) =
     (if ''2411.00001'' \<in> P then {} else {''2411.00001''})"
  by (auto simp: main_loop_new_processed sample_verdict sample_base)

lemma sample_store_pruned:
  "stored (arxiv_alert
             (sample_env (one_page [paper ''2411.00001v1'' cats d])
                (\<lambda>S. ''2411.00001'' # old_ids))
             (set old_ids) 1 None None None None) = set (drop 500 old_ids)"
proof -
  let ?e = "sample_env (one_page [paper ''2411.00001v1'' cats d]) (\<lambda>S. ''2411.00001'' # old_ids)"
  have "stored (arxiv_alert ?e (set old_ids) 1 None None None None) =
          clean_old_processed_papers (list_of ?e) (insert ''2411.00001'' (set old_ids))"
    using arxiv_alert_digest(2) [of ?e 1 None None None "set old_ids" None] old_ids_facts(3)
    by (simp add: sample_fetched sample_new_processed)
  also have "\<dots> = set (drop 500 old_ids)"
    using card_old_ids old_ids_facts(1)
    by (simp add: clean_old_processed_papers_def sample_env_def Let_def)
  finally show ?thesis .
qed

text \<open>
  An instance: a store of 1000 identifiers and one new paper, listed first by the runtime.
\<close>

theorem clean_old_processed_papers_cap_witness:
  "(let lst = (\<lambda>S. ''2411.00001'' # old_ids);
        S = insert ''2411.00001'' (set old_ids);
        e = sample_env (one_page [paper ''2411.00001v1'' [''astro-ph.GA''] ''2024-11-20T12:34:56Z'']) lst;
        r = arxiv_alert e (set old_ids) 1 None None None None
    in card {''2411.00001''} \<le> 1000 \<and>
       clean_old_processed_papers lst {''2411.00001''} = {''2411.00001''} \<and>
       enumerates lst S \<and> 1000 < card S \<and>
       clean_old_processed_papers lst S \<subseteq> S \<and> card (clean_old_processed_papers lst S) = 500 \<and>
       digest r = Some (main_loop e (set old_ids) 1 None None None
                          [paper ''2411.00001v1'' [''astro-ph.GA''] ''2024-11-20T12:34:56Z'']) \<and>
       finite (set old_ids) \<and> finite (stored r) \<and> card (stored r) \<le> 1000)"
proof -
  let ?lst = "\<lambda>S::string set. ''2411.00001'' # old_ids"
  let ?S = "insert ''2411.00001'' (set old_ids)"
  let ?p = "paper ''2411.00001v1'' [''astro-ph.GA''] ''2024-11-20T12:34:56Z''"
  let ?e = "sample_env (one_page [?p]) ?lst"
  let ?st = "main_loop ?e (set old_ids) 1 None None None [?p]"
  have en: "enumerates ?lst ?S"
    using old_ids_facts by (simp add: enumerates_def)
  have big: "1000 < card ?S"
    by (simp add: card_old_ids)
  have dg: "digest (arxiv_alert ?e (set old_ids) 1 None None None None) = Some ?st"
    using arxiv_alert_digest(1) [of ?e 1 None None None "set old_ids" None]
    by (simp add: sample_fetched)
  have np: "set old_ids \<union> new_processed_papers ?st = ?S"
    using old_ids_facts(3) by (simp add: sample_new_processed)
  have lo: "list_of ?e = ?lst"
    by (simp add: sample_env_def)
  have en': "enumerates (list_of ?e) (set old_ids \<union> new_processed_papers ?st)"
    using en by (simp only: np lo)
  show ?thesis
    using clean_old_processed_papers_cap [of "{''2411.00001''}" ?lst]
      clean_old_processed_papers_cap [of ?S ?lst ?e "set old_ids" 1 None None None None ?st]
      en big dg en'
    by (simp add: Let_def)
qed

theorem rerun_no_new_papers_witness:
  "(let p = paper ''2411.00001v1'' [''astro-ph.GA''] ''2024-11-20T12:34:56Z'';
        e = sample_env (one_page [p]) (\<lambda>S. []);
        r1 = arxiv_alert e {} 1 None None None None;
        r2 = arxiv_alert e (stored r1) 1 None None None None
    in card ({} \<union> new_processed_papers
                    (main_loop e {} 1 None None None (fetched_entries e 1 None None None)))
         \<le> 1000 \<and>
       map_option new_papers_count (digest r1) = Some 1 \<and>
       stored r1 = {''2411.00001''} \<and>
       digest r2 = Some (main_loop e {''2411.00001''} 1 None None None [p]) \<and>
       new_papers_count (main_loop e {''2411.00001''} 1 None None None [p]) = 0)"
proof -
  let ?p = "paper ''2411.00001v1'' [''astro-ph.GA''] ''2024-11-20T12:34:56Z''"
  let ?e = "sample_env (one_page [?p]) (\<lambda>S. [])"
  have c: "card ({} \<union> new_processed_papers
                    (main_loop ?e {} 1 None None None (fetched_entries ?e 1 None None None)))
         \<le> 1000"
    by (simp add: sample_fetched sample_new_processed)
  have s1: "stored (arxiv_alert ?e {} 1 None None None None) = {''2411.00001''}"
    using arxiv_alert_digest(2) [of ?e 1 None None None "{}" None]
    by (simp add: sample_fetched sample_new_processed clean_small)
  have d1: "map_option new_papers_count (digest (arxiv_alert ?e {} 1 None None None None)) = Some 1"
    using arxiv_alert_digest(1) [of ?e 1 None None None "{}" None]
    by (simp add: sample_fetched main_loop_new_count sample_verdict)
  have d2: "digest (arxiv_alert ?e {''2411.00001''} 1 None None None None) =
              Some (main_loop ?e {''2411.00001''} 1 None None None [?p])"
    using arxiv_alert_digest(1) [of ?e 1 None None None "{''2411.00001''}" None]
    by (simp add: sample_fetched)
  show ?thesis
    using rerun_no_new_papers [of "{}" ?e 1 None None None None
        "main_loop ?e {''2411.00001''} 1 None None None [?p]"] c s1 d1 d2
    by (simp add: Let_def)
qed

text \<open>
  The claim as worded fails once the store is pruned: with 1000 identifiers in the store
  and one new paper, the first run prunes the store to 500 identifiers, the new one may be
  among those dropped, and the second run counts the paper as new again.
\<close>

theorem rerun_after_pruning_counterexample:
  "(let p = paper ''2411.00001v1'' [''astro-ph.GA''] ''2024-11-20T12:34:56Z'';
        e = sample_env (one_page [p]) (\<lambda>S. ''2411.00001'' # old_ids);
        r1 = arxiv_alert e (set old_ids) 1 None None None None;
        r2 = arxiv_alert e (stored r1) 1 None None None None
    in enumerates (list_of e)
         (set old_ids \<union> new_processed_papers (main_loop e (set old_ids) 1 None None None [p])) \<and>
       map_option new_papers_count (digest r1) = Some 1 \<and>
       map_option new_papers_count (digest r2) = Some 1)"
proof -
  let ?p = "paper ''2411.00001v1'' [''astro-ph.GA''] ''2024-11-20T12:34:56Z''"
  let ?e = "sample_env (one_page [?p]) (\<lambda>S. ''2411.00001'' # old_ids)"
  have en: "enumerates (list_of ?e)
         (set old_ids \<union> new_processed_papers (main_loop ?e (set old_ids) 1 None None None [?p]))"
    using old_ids_facts by (simp add: sample_new_processed enumerates_def sample_env_def)
  have d1: "map_option new_papers_count
              (digest (arxiv_alert ?e (set old_ids) 1 None None None None)) = Some 1"
    using arxiv_alert_digest(1) [of ?e 1 None None None "set old_ids" None] old_ids_facts(3)
    by (simp add: sample_fetched main_loop_new_count sample_verdict sample_base)
  have "''2411.00001'' \<notin> set (drop 500 old_ids)"
    using old_ids_facts(3) by (auto dest: in_set_dropD)
  then have d2: "map_option new_papers_count
              (digest (arxiv_alert ?e (set (drop 500 old_ids)) 1 None None None None)) = Some 1"
    using arxiv_alert_digest(1) [of ?e 1 None None None "set (drop 500 old_ids)" None]
    by (simp add: sample_fetched main_loop_new_count sample_verdict sample_base)
  show ?thesis
    using en d1 d2 by (simp add: Let_def sample_store_pruned)
qed

section \<open>The date check\<close>







section \<open>The filter chain\<close>

lemma has_required_category_iff:
  "has_required_category cats e \<longleftrightarrow> (\<exists>t \<in> set (tags e). \<exists>r \<in> set cats. lower t = lower r)"
  by (auto simp: has_required_category_def list_ex_iff)

lemma has_excluded_category_iff:
  "has_excluded_category cats e \<longleftrightarrow> (\<exists>t \<in> set (tags e). \<exists>r \<in> set cats. lower t = lower r)"
  by (auto simp: has_excluded_category_def list_ex_iff)

lemma rejected_required_step:
  assumes "filter_verdict c x k e = RejectedRequired"
  shows "process_entry gc P sw y c x' k' st e = process_entry gc P sw y c x k st e"
proof -
  from assms have "truthy c \<and> \<not> has_required_category (items c) e"
    by (simp add: filter_verdict_def split: if_splits)
  then show ?thesis
    by (simp add: process_entry_def Let_def)
qed

lemma rejected_excluded_step:
  assumes "filter_verdict c x k e = RejectedExcluded"
  shows "process_entry gc P sw y c x k' st e = process_entry gc P sw y c x k st e"
proof -
  from assms have "\<not> (truthy c \<and> \<not> has_required_category (items c) e) \<and>
                   truthy x \<and> has_excluded_category (items x) e"
    by (simp add: filter_verdict_def split: if_splits)
  then show ?thesis
    by (simp add: process_entry_def Let_def)
qed

text \<open>
  Claim C3. One round of the main loop follows the filter chain in its order: an entry
  that fails the required-category check is counted once as filtered and the round is the
  same whatever the excluded categories and the keywords are; an entry that passes it and
  fails the excluded-category check is counted once as filtered and the round is the same
  whatever the keywords are; an entry that passes both and fails the keyword check is
  counted once under the keyword counter; an entry that passes all three is shown. No
  rejected entry is shown or rendered. Both category checks compare lower-cased names, so
  the tag \<open>astro-ph.CO\<close> passes the required list \<open>astro-ph.co\<close>.
\<close>

theorem filter_chain_order:
  "(filter_verdict c x k e = RejectedRequired \<longrightarrow>
      process_entry gc P sw y c x' k' st e = process_entry gc P sw y c x k st e \<and>
      filtered_papers_count (process_entry gc P sw y c x k st e) = filtered_papers_count st + 1 \<and>
      no_keywords_count (process_entry gc P sw y c x k st e) = no_keywords_count st \<and>
      shown_papers_count (process_entry gc P sw y c x k st e) = shown_papers_count st \<and>
      body (process_entry gc P sw y c x k st e) = body st) \<and>
   (filter_verdict c x k e = RejectedExcluded \<longrightarrow>
      process_entry gc P sw y c x k' st e = process_entry gc P sw y c x k st e \<and>
      filtered_papers_count (process_entry gc P sw y c x k st e) = filtered_papers_count st + 1 \<and>
      no_keywords_count (process_entry gc P sw y c x k st e) = no_keywords_count st \<and>
      shown_papers_count (process_entry gc P sw y c x k st e) = shown_papers_count st \<and>
      body (process_entry gc P sw y c x k st e) = body st) \<and>
   (filter_verdict c x k e = RejectedKeywords \<longrightarrow>
      filtered_papers_count (process_entry gc P sw y c x k st e) = filtered_papers_count st \<and>
      no_keywords_count (process_entry gc P sw y c x k st e) = no_keywords_count st + 1 \<and>
      shown_papers_count (process_entry gc P sw y c x k st e) = shown_papers_count st \<and>
      body (process_entry gc P sw y c x k st e) = body st) \<and>
   (filter_verdict c x k e = Accepted \<longrightarrow>
      filtered_papers_count (process_entry gc P sw y c x k st e) = filtered_papers_count st \<and>
      no_keywords_count (process_entry gc P sw y c x k st e) = no_keywords_count st \<and>
      shown_papers_count (process_entry gc P sw y c x k st e) = shown_papers_count st + 1) \<and>
   (has_required_category cats e \<longleftrightarrow>
      (\<exists>t \<in> set (tags e). \<exists>r \<in> set cats. lower t = lower r)) \<and>
   (has_excluded_category cats e \<longleftrightarrow>
      (\<exists>t \<in> set (tags e). \<exists>r \<in> set cats. lower t = lower r)) \<and>
   filter_verdict (Some [''astro-ph.co'']) None None (paper ident [''astro-ph.CO''] d) = Accepted"
proof -
  have "filter_verdict (Some [''astro-ph.co'']) None None (paper ident [''astro-ph.CO''] d) =
          Accepted"
    by (simp add: filter_verdict_def has_required_category_def paper_def lower_def lower_char_def)
  then show ?thesis
    using rejected_required_step [of c x k e gc P sw y x' k' st]
      rejected_excluded_step [of c x k e gc P sw y k' st]
      has_required_category_iff [of cats e] has_excluded_category_iff [of cats e]
    by (simp add: process_entry_filtered process_entry_no_keywords process_entry_shown
        process_entry_body)
qed

lemma sample_verdicts:
  "filter_verdict (Some [''astro-ph.ga'']) (Some [''astro-ph.sr'']) (Some [''quasar''])
     (paper ident [''astro-ph.SR''] d) = RejectedRequired"
  "filter_verdict None (Some [''astro-ph.sr'']) (Some [''quasar''])
     (paper ident [''astro-ph.SR''] d) = RejectedExcluded"
  "filter_verdict None None (Some [''quasar'']) (paper ident [''astro-ph.SR''] d) =
     RejectedKeywords"
  "filter_verdict None None (Some [''ALMA'']) (paper ident [''astro-ph.SR''] d) = Accepted"
  by (simp_all add: filter_verdict_def has_required_category_def has_excluded_category_def
      paper_def lower_def lower_char_def matching_keywords_of_def find_matching_keywords_def
      match_keyword_def py_strip_def)

theorem filter_chain_order_witness:
  "(let p = paper ''2411.00001v1'' [''astro-ph.SR''] ''2024-11-20T12:34:56Z'';
        w = \<lparr>year = 2024, month = 11, day = 20\<rparr>;
        step = (\<lambda>c x k. process_entry (\<lambda>i. ''No comments'') {} w w c x k st0 p);
        ga = Some [''astro-ph.ga'']; sr = Some [''astro-ph.sr'']; q = Some [''quasar''];
        al = Some [''ALMA'']
    in filter_verdict ga sr q p = RejectedRequired \<and>
       step ga None None = step ga sr q \<and>
       filtered_papers_count (step ga sr q) = 1 \<and> no_keywords_count (step ga sr q) = 0 \<and>
       shown_papers_count (step ga sr q) = 0 \<and>
       filter_verdict None sr q p = RejectedExcluded \<and>
       step None sr None = step None sr q \<and>
       filtered_papers_count (step None sr q) = 1 \<and> no_keywords_count (step None sr q) = 0 \<and>
       filter_verdict None None q p = RejectedKeywords \<and>
       filtered_papers_count (step None None q) = 0 \<and>
       no_keywords_count (step None None q) = 1 \<and>
       filter_verdict None None al p = Accepted \<and>
       shown_papers_count (step None None al) = 1)"
proof -
  let ?p = "paper ''2411.00001v1'' [''astro-ph.SR''] ''2024-11-20T12:34:56Z''"
  let ?w = "\<lparr>year = 2024, month = 11, day = 20\<rparr>"
  let ?gc = "\<lambda>i::string. ''No comments''"
  let ?ga = "Some [''astro-ph.ga'']"
  let ?sr = "Some [''astro-ph.sr'']"
  let ?q = "Some [''quasar'']"
  let ?al = "Some [''ALMA'']"
  show ?thesis
    using filter_chain_order [of ?ga ?sr ?q ?p ?gc "{}" ?w ?w None None st0]
      filter_chain_order [of None ?sr ?q ?p ?gc "{}" ?w ?w ?sr None st0]
      filter_chain_order [of None None ?q ?p ?gc "{}" ?w ?w None None st0]
      filter_chain_order [of None None ?al ?p ?gc "{}" ?w ?w None None st0]
    by (simp add: Let_def sample_verdicts st0_def)
qed

section \<open>Seen-before entries and versions\<close>







lemma takeWhile_stop:
  "\<not> Q x \<Longrightarrow> takeWhile Q (xs @ x # ys) = takeWhile Q xs"
  by (induction xs) simp_all

lemma base_of_version:
  assumes "arxiv_id_of e = p @ ''v'' @ d"
  shows "base_of e = takeWhile (\<lambda>ch. ch \<noteq> CHR ''v'') p"
  using assms by (simp add: base_of_def base_arxiv_id_def hd_py_split takeWhile_stop)

lemma pair_counted:
  assumes "e1 \<in> set es" "e2 \<in> set es" "e1 \<noteq> e2" "Q e1" "Q e2"
  shows "length (filter Q (filter (\<lambda>e. e \<noteq> e1 \<and> e \<noteq> e2) es)) + 2 \<le> length (filter Q es)"
proof -
  let ?R = "\<lambda>e. e \<noteq> e1 \<and> e \<noteq> e2"
  let ?l = "filter (\<lambda>e. \<not> ?R e) (filter Q es)"
  have split: "length (filter Q es) = length (filter ?R (filter Q es)) + length ?l"
    using sum_length_filter_compl [of ?R "filter Q es"] by simp
  have "{e1, e2} \<subseteq> set ?l"
    using assms by auto
  then have "card {e1, e2} \<le> card (set ?l)"
    by (intro card_mono) simp_all
  also have "\<dots> \<le> length ?l"
    by (rule card_length)
  finally have "2 \<le> length ?l"
    using assms(3) by simp
  moreover have "filter Q (filter ?R es) = filter ?R (filter Q es)"
    by (simp add: conj_commute)
  ultimately show ?thesis
    using split by simp
qed

text \<open>
  Claim C2, as the code has it. Two fetched entries whose identifiers are the same text
  followed by \<open>v\<close> and a version have the same base identifier: the text up to its first
  \<open>v\<close>, which is the whole text before the version marker when that text has no \<open>v\<close>.
  Compared with the run of the main loop on the other fetched entries alone, the pair adds
  to the set of newly processed identifiers nothing but that one base identifier, and it
  adds it when one of the two is accepted and the identifier is not in the loaded store.
  The count of new papers counts every accepted entry whose base identifier is not in the
  loaded store, each version on its own: when both are accepted, the pair adds two.
\<close>

theorem version_pair_base:
  assumes "arxiv_id_of e1 = p @ ''v'' @ d1" "arxiv_id_of e2 = p @ ''v'' @ d2"
    and "e1 \<in> set (fetched_entries env n c k a)" "e2 \<in> set (fetched_entries env n c k a)"
  shows "base_of e1 = base_of e2 \<and>
         base_of e1 = takeWhile (\<lambda>ch. ch \<noteq> CHR ''v'') p \<and>
         (CHR ''v'' \<notin> set p \<longrightarrow> base_of e1 = p) \<and>
         (let es = fetched_entries env n c k a;
              others = filter (\<lambda>e. e \<noteq> e1 \<and> e \<noteq> e2) es;
              st = main_loop env P n c x k es;
              st' = main_loop env P n c x k others
          in digest (arxiv_alert env P n c k a x) = Some st \<and>
             new_processed_papers st - new_processed_papers st' \<subseteq> {base_of e1} \<and>
             card (new_processed_papers st - new_processed_papers st') \<le> 1 \<and>
             ((filter_verdict c x k e1 = Accepted \<or> filter_verdict c x k e2 = Accepted) \<and>
              base_of e1 \<notin> P \<longrightarrow> base_of e1 \<in> new_processed_papers st) \<and>
             new_papers_count st =
               length (filter (\<lambda>e. filter_verdict c x k e = Accepted \<and> base_of e \<notin> P) es) \<and>
             (e1 \<noteq> e2 \<and> filter_verdict c x k e1 = Accepted \<and>
              filter_verdict c x k e2 = Accepted \<and> base_of e1 \<notin> P \<longrightarrow>
                new_papers_count st' + 2 \<le> new_papers_count st))"
proof -
  let ?es = "fetched_entries env n c k a"
  let ?others = "filter (\<lambda>e. e \<noteq> e1 \<and> e \<noteq> e2) ?es"
  let ?st = "main_loop env P n c x k ?es"
  let ?st' = "main_loop env P n c x k ?others"
  let ?Q = "\<lambda>e. filter_verdict c x k e = Accepted \<and> base_of e \<notin> P"
  have b: "base_of e1 = takeWhile (\<lambda>ch. ch \<noteq> CHR ''v'') p"
          "base_of e2 = takeWhile (\<lambda>ch. ch \<noteq> CHR ''v'') p"
    using assms(1,2) by (simp_all add: base_of_version)
  then have eq: "base_of e2 = base_of e1"
    by simp
  have v: "CHR ''v'' \<notin> set p \<longrightarrow> base_of e1 = p"
    using b(1) by (auto simp: takeWhile_eq_all_conv)
  from assms(3) have ne: "?es \<noteq> []"
    by auto
  have d: "digest (arxiv_alert env P n c k a x) = Some ?st"
    by (rule arxiv_alert_digest(1) [OF ne])
  have sub: "new_processed_papers ?st - new_processed_papers ?st' \<subseteq> {base_of e1}"
    using eq by (auto simp: main_loop_new_processed)
  then have "card (new_processed_papers ?st - new_processed_papers ?st') \<le> card {base_of e1}"
    by (intro card_mono) simp_all
  then have c1: "card (new_processed_papers ?st - new_processed_papers ?st') \<le> 1"
    by simp
  have rec: "base_of e1 \<in> new_processed_papers ?st"
    if "(filter_verdict c x k e1 = Accepted \<or> filter_verdict c x k e2 = Accepted) \<and>
        base_of e1 \<notin> P"
  proof -
    from that eq have "?Q e1 \<or> ?Q e2"
      by auto
    then show ?thesis
    proof
      assume "?Q e1"
      with assms(3) have "e1 \<in> {e' \<in> set ?es. ?Q e'}"
        by simp
      then have "base_of e1 \<in> base_of ` {e' \<in> set ?es. ?Q e'}"
        by (rule imageI)
      then show ?thesis
        by (simp only: main_loop_new_processed)
    next
      assume "?Q e2"
      with assms(4) have "e2 \<in> {e' \<in> set ?es. ?Q e'}"
        by simp
      then have "base_of e2 \<in> base_of ` {e' \<in> set ?es. ?Q e'}"
        by (rule imageI)
      then show ?thesis
        by (simp only: main_loop_new_processed eq)
    qed
  qed
  have cnt: "new_papers_count ?st' + 2 \<le> new_papers_count ?st"
    if "e1 \<noteq> e2 \<and> filter_verdict c x k e1 = Accepted \<and>
        filter_verdict c x k e2 = Accepted \<and> base_of e1 \<notin> P"
  proof -
    from that eq have "e1 \<noteq> e2" "?Q e1" "?Q e2"
      by simp_all
    from pair_counted [OF assms(3,4) this] show ?thesis
      by (simp add: main_loop_new_count)
  qed
  show ?thesis
    unfolding Let_def using b(1) eq v d sub c1 rec cnt main_loop_new_count [of env P n c x k ?es]
    by (intro conjI impI) simp_all
qed

lemma sample_fetched_versions:
  "fetched_entries
     (sample_env (one_page [paper ''2411.00001v1'' cats d, paper ''2411.00001v2'' cats d]) lst)
     1 c None a =
     [paper ''2411.00001v1'' cats d, paper ''2411.00001v2'' cats d]"
  by (simp add: fetched_entries_def fetch_all_def keyword_batches_def
      fetch_pages.simps [of _ _ _ _ _ _ _ 0] fetch_arxiv_batch_def one_page_def sample_env_def
      max_total_results_of_def amount_of_def max_results_per_call_def add_entry_def Let_def
      arxiv_id_of_def paper_def py_split_def)

lemma sample_ids:
  "arxiv_id_of (paper ''2411.00001v1'' cats d) = ''2411.00001'' @ ''v'' @ ''1''"
  "arxiv_id_of (paper ''2411.00001v2'' cats d) = ''2411.00001'' @ ''v'' @ ''2''"
  "base_of (paper ''2411.00001v2'' cats d) = ''2411.00001''"
  by (simp_all add: base_of_def arxiv_id_of_def base_arxiv_id_def paper_def py_split_def)

text \<open>An instance: the first and the second version of one paper.\<close>

theorem version_pair_base_witness:
  "(let p1 = paper ''2411.00001v1'' [''astro-ph.GA''] ''2024-11-20T12:34:56Z'';
        p2 = paper ''2411.00001v2'' [''astro-ph.GA''] ''2024-11-20T12:34:56Z'';
        e = sample_env (one_page [p1, p2]) (\<lambda>S. []);
        es = fetched_entries e 1 None None None;
        st = main_loop e {} 1 None None None es;
        st' = main_loop e {} 1 None None None (filter (\<lambda>e. e \<noteq> p1 \<and> e \<noteq> p2) es)
    in arxiv_id_of p1 = ''2411.00001'' @ ''v'' @ ''1'' \<and>
       arxiv_id_of p2 = ''2411.00001'' @ ''v'' @ ''2'' \<and>
       p1 \<in> set es \<and> p2 \<in> set es \<and> p1 \<noteq> p2 \<and>
       CHR ''v'' \<notin> set ''2411.00001'' \<and>
       filter_verdict None None None p1 = Accepted \<and>
       filter_verdict None None None p2 = Accepted \<and> base_of p1 \<notin> {} \<and>
       base_of p1 = ''2411.00001'' \<and> base_of p1 = base_of p2 \<and>
       digest (arxiv_alert e {} 1 None None None None) = Some st \<and>
       new_processed_papers st - new_processed_papers st' \<subseteq> {base_of p1} \<and>
       card (new_processed_papers st - new_processed_papers st') \<le> 1 \<and>
       base_of p1 \<in> new_processed_papers st \<and>
       new_papers_count st' + 2 \<le> new_papers_count st)"
proof -
  let ?p1 = "paper ''2411.00001v1'' [''astro-ph.GA''] ''2024-11-20T12:34:56Z''"
  let ?p2 = "paper ''2411.00001v2'' [''astro-ph.GA''] ''2024-11-20T12:34:56Z''"
  let ?e = "sample_env (one_page [?p1, ?p2]) (\<lambda>S. [])"
  let ?es = "fetched_entries ?e 1 None None None"
  have h1: "arxiv_id_of ?p1 = ''2411.00001'' @ ''v'' @ ''1''"
    by (rule sample_ids(1))
  have h2: "arxiv_id_of ?p2 = ''2411.00001'' @ ''v'' @ ''2''"
    by (rule sample_ids(2))
  have f: "?es = [?p1, ?p2]"
    by (rule sample_fetched_versions)
  have m1: "?p1 \<in> set ?es" and m2: "?p2 \<in> set ?es"
    by (simp_all add: f)
  have ne: "?p1 \<noteq> ?p2"
    by (simp add: paper_def)
  have v: "CHR ''v'' \<notin> set ''2411.00001''"
    by simp
  have a1: "filter_verdict None None None ?p1 = Accepted"
    and a2: "filter_verdict None None None ?p2 = Accepted"
    by (rule sample_verdict)+
  have np: "base_of ?p1 \<notin> {}"
    by simp
  note t = version_pair_base [OF h1 h2 m1 m2, where P = "{}" and x = None, unfolded Let_def]
  from t v have b: "base_of ?p1 = ''2411.00001''"
    by blast
  from t have rest:
    "base_of ?p1 = base_of ?p2"
    "digest (arxiv_alert ?e {} 1 None None None None) = Some (main_loop ?e {} 1 None None None ?es)"
    "new_processed_papers (main_loop ?e {} 1 None None None ?es) -
       new_processed_papers (main_loop ?e {} 1 None None None
          (filter (\<lambda>e. e \<noteq> ?p1 \<and> e \<noteq> ?p2) ?es)) \<subseteq> {base_of ?p1}"
    "card (new_processed_papers (main_loop ?e {} 1 None None None ?es) -
       new_processed_papers (main_loop ?e {} 1 None None None
          (filter (\<lambda>e. e \<noteq> ?p1 \<and> e \<noteq> ?p2) ?es))) \<le> 1"
    by blast+
  from t a1 np have rec: "base_of ?p1 \<in> new_processed_papers (main_loop ?e {} 1 None None None ?es)"
    by blast
  from t ne a1 a2 np have cnt:
    "new_papers_count (main_loop ?e {} 1 None None None
        (filter (\<lambda>e. e \<noteq> ?p1 \<and> e \<noteq> ?p2) ?es)) + 2
       \<le> new_papers_count (main_loop ?e {} 1 None None None ?es)"
    by blast
  show ?thesis
    unfolding Let_def using h1 h2 m1 m2 ne v a1 a2 np b rest rec cnt by blast
qed

text \<open>
  The claim as worded fails: two versions of one paper, both fetched and accepted, are both
  counted as new; and an identifier of the archive \<open>solv-int\<close> is cut inside the archive
  name, not at its version marker.
\<close>

theorem versions_counted_twice_counterexample:
  "(let p1 = paper ''2411.00001v1'' [''astro-ph.GA''] ''2024-11-20T12:34:56Z'';
        p2 = paper ''2411.00001v2'' [''astro-ph.GA''] ''2024-11-20T12:34:56Z'';
        e = sample_env (one_page [p1, p2]) (\<lambda>S. []);
        r = arxiv_alert e {} 1 None None None None
    in arxiv_id_of p1 = ''2411.00001'' @ ''v'' @ ''1'' \<and>
       arxiv_id_of p2 = ''2411.00001'' @ ''v'' @ ''2'' \<and>
       fetched_entries e 1 None None None = [p1, p2] \<and>
       map_option new_papers_count (digest r) = Some 2 \<and>
       map_option new_processed_papers (digest r) = Some {''2411.00001''}) \<and>
   base_arxiv_id ''solv-int/9901001v1'' = ''sol''"
proof -
  let ?p1 = "paper ''2411.00001v1'' [''astro-ph.GA''] ''2024-11-20T12:34:56Z''"
  let ?p2 = "paper ''2411.00001v2'' [''astro-ph.GA''] ''2024-11-20T12:34:56Z''"
  let ?e = "sample_env (one_page [?p1, ?p2]) (\<lambda>S. [])"
  have f: "fetched_entries ?e 1 None None None = [?p1, ?p2]"
    by (rule sample_fetched_versions)
  have d: "digest (arxiv_alert ?e {} 1 None None None None) =
             Some (main_loop ?e {} 1 None None None [?p1, ?p2])"
    using arxiv_alert_digest(1) [of ?e 1 None None None "{}" None] by (simp add: f)
  have s: "base_arxiv_id ''solv-int/9901001v1'' = ''sol''"
    by (simp add: base_arxiv_id_def py_split_def)
  have np: "new_processed_papers (main_loop ?e {} 1 None None None [?p1, ?p2]) =
              {''2411.00001''}"
    by (simp add: main_loop_def process_entries_def process_entry_new_processed sample_verdict
        sample_base sample_ids(3))
  have nc: "new_papers_count (main_loop ?e {} 1 None None None [?p1, ?p2]) = 2"
    by (simp add: main_loop_new_count sample_verdict)
  show ?thesis
    using f d s np nc sample_ids(1,2) [of "[''astro-ph.GA'']" "''2024-11-20T12:34:56Z''"]
    by (simp add: Let_def)
qed

end
